theory Spec2Isabelle
  imports Main
begin

section \<open>Strings: the functions of Go's \<open>strings\<close> and \<open>fmt\<close> packages that the generator uses\<close>

text \<open>A Go string is a sequence of bytes; it is modelled as a \<^typ>\<open>string\<close>.\<close>

definition HasPrefix :: "string \<Rightarrow> string \<Rightarrow> bool" where
  "HasPrefix s p = (take (length p) s = p)"

definition TrimSuffix :: "string \<Rightarrow> string \<Rightarrow> string" where
  "TrimSuffix s suf =
     (if length suf \<le> length s \<and> drop (length s - length suf) s = suf
      then take (length s - length suf) s else s)"

fun Join :: "string list \<Rightarrow> string \<Rightarrow> string" where
  "Join [] sep = []"
| "Join [x] sep = x"
| "Join (x # y # ys) sep = x @ sep @ Join (y # ys) sep"

text \<open>\<open>strings.Split(s, ".")\<close>: the separator of every call in the source is the one byte
  \<open>.\<close>, so the model splits at a character. The result always has at least one element.\<close>

fun Split :: "string \<Rightarrow> char \<Rightarrow> string list" where
  "Split [] c = [[]]"
| "Split (x # xs) c =
     (if x = c then [] # Split xs c
      else (case Split xs c of [] \<Rightarrow> [[x]] | w # ws \<Rightarrow> (x # w) # ws))"

text \<open>\<open>cleaner = strings.NewReplacer("[]", "", "*", "")\<close>: one pass from left to right
  that drops every occurrence of \<open>[]\<close> and of \<open>*\<close>.\<close>

fun cleaner_Replace :: "string \<Rightarrow> string" where
  "cleaner_Replace [] = []"
| "cleaner_Replace [c] = (if c = CHR ''*'' then [] else [c])"
| "cleaner_Replace (c # d # s) =
     (if c = CHR ''['' \<and> d = CHR '']'' then cleaner_Replace s
      else if c = CHR ''*'' then cleaner_Replace (d # s)
      else c # cleaner_Replace (d # s))"

text \<open>The decimal numeral that \<open>fmt.Sprintf("%d", n)\<close> prints for a non-negative \<open>n\<close>.\<close>

definition digit :: "nat \<Rightarrow> char" where
  "digit d = ''0123456789'' ! d"

function decimal :: "nat \<Rightarrow> string" where
  "decimal n = (if n < 10 then [digit n] else decimal (n div 10) @ [digit (n mod 10)])"
  by pat_completeness auto
termination
  by (relation "measure id") auto

declare decimal.simps [simp del]

text \<open>\<open>fmt.Sprintf("i%d", index)\<close>, the name of the loop variable at nesting position
  \<open>index\<close>.\<close>

definition loop_var :: "nat \<Rightarrow> string" where
  "loop_var index = ''i'' @ decimal index"

section \<open>The code-emission library: statements as token lists\<close>

text \<open>A \<open>jen.Statement\<close> is the list of tokens appended by the chained builder calls, in
  call order: \<open>jen.Id("a").Dot("b").Op("!=").Nil()\<close> is
  \<open>[jen_Id ''a'', jen_Dot ''b'', jen_Op ''!='', jen_Nil]\<close>. A group token (\<open>If\<close>,
  \<open>Block\<close>, \<open>Call\<close>, ...) holds its arguments; an argument that is itself a statement is
  wrapped in \<open>Stmt\<close>. \<open>Clone\<close> copies a statement, so it is the identity on values. A
  \<open>jen.Dict\<close> is kept as the list of its entries in source order.\<close>

datatype code =
    jen_Id string
  | jen_Dot string
  | jen_Op string
  | jen_LitInt int
  | jen_LitStr string
  | jen_Qual string string
  | jen_Nil
  | jen_Err
  | jen_Error
  | jen_Var
  | jen_Func
  | jen_Line
  | jen_Comment string
  | jen_Len code
  | jen_If "code list"
  | jen_For "code list"
  | jen_Block "code list"
  | jen_Call "code list"
  | jen_Params "code list"
  | jen_Values "code list"
  | jen_Return "code list"
  | jen_List "code list"
  | jen_Make "code list"
  | jen_Dict "(code \<times> code) list"
  | Stmt "code list"

type_synonym statement = "code list"

section \<open>Slices of strings: the store of backing arrays\<close>

text \<open>A \<open>[]string\<close> value is a reference to a backing array. \<open>encapsulate\<close> assigns to
  \<open>fields[index]\<close>, and its caller passes \<open>ref.GoValueFieldPath...\<close>, which hands over
  the slice itself, not a copy: the assignment is visible through every slice on that
  array. The model therefore keeps the arrays in a store and a slice is the address of
  its array (every slice of the program spans its whole array).\<close>

type_synonym addr = nat

record heap =
  arrays :: "addr \<Rightarrow> string list"
  fresh :: addr

definition alloc :: "string list \<Rightarrow> heap \<Rightarrow> addr \<times> heap" where
  "alloc xs h = (fresh h, \<lparr>arrays = (arrays h)(fresh h := xs), fresh = Suc (fresh h)\<rparr>)"

definition store_elem :: "addr \<Rightarrow> nat \<Rightarrow> string \<Rightarrow> heap \<Rightarrow> heap" where
  "store_elem a i v h = h\<lparr>arrays := (arrays h)(a := (arrays h a)[i := v])\<rparr>"

text \<open>A run-time panic of the generator: an index out of range, or the explicit
  \<open>panic\<close> of \<open>NewResolveReferences\<close> with its message.\<close>

datatype failure = IndexOutOfRange | TraversePanic string

section \<open>The guard builder (resolver.go)\<close>

text \<open>\<open>resolutionCallFn\<close>: the closures built by \<open>singleResolutionCall\<close> and
  \<open>multiResolutionCall\<close> read their \<open>fields\<close> argument and the captured
  \<open>ref.GoValueFieldPath\<close>, both slices, at the moment they are called; so the model
  gives them the store. (The parameter \<open>fields\<close> of the source is written \<open>flds\<close>,
  the local \<open>id\<close> is written \<open>ident\<close> and the object \<open>o\<close> is written \<open>obj\<close>: the
  source's names are constants of HOL.)\<close>

type_synonym resolutionCallFn = "heap \<Rightarrow> addr \<Rightarrow> failure + statement"

text \<open>The expression built by the loop \<open>for i := 1; i <= index; i++\<close> of
  \<open>encapsulate\<close>: the cleaned segments \<open>0..index\<close>, joined by dots.\<close>

definition fieldPath_of :: "string list \<Rightarrow> nat \<Rightarrow> statement" where
  "fieldPath_of flds index =
     jen_Id (cleaner_Replace (flds ! 0)) #
     map (\<lambda>i. jen_Dot (cleaner_Replace (flds ! i))) [1..<Suc index]"

function encapsulate ::
  "nat \<Rightarrow> resolutionCallFn \<Rightarrow> addr \<Rightarrow> heap \<Rightarrow> failure + (statement \<times> heap)" where
  "encapsulate index callFn flds h =
     (if length (arrays h flds) \<le> index then
        (case callFn h flds of Inl e \<Rightarrow> Inl e | Inr s \<Rightarrow> Inr (s, h))
      else
        let field = arrays h flds ! index;
            fieldPath = fieldPath_of (arrays h flds) index
        in if HasPrefix field ''*'' then
             (case encapsulate (index + 1) callFn flds
                     (store_elem flds index (cleaner_Replace (arrays h flds ! index)) h) of
                Inl e \<Rightarrow> Inl e
              | Inr (inner, h') \<Rightarrow>
                  Inr ([jen_If [Stmt (fieldPath @ [jen_Op ''!='', jen_Nil])],
                        jen_Block [Stmt inner]], h'))
           else if HasPrefix field ''[]'' then
             (case encapsulate (index + 1) callFn flds
                     (store_elem flds index
                        (cleaner_Replace (arrays h flds ! index) @ ''['' @ loop_var index @ '']'') h) of
                Inl e \<Rightarrow> Inl e
              | Inr (inner, h') \<Rightarrow>
                  Inr ([jen_For [Stmt [jen_Id (loop_var index), jen_Op '':='', jen_LitInt 0],
                                 Stmt [jen_Id (loop_var index), jen_Op ''<'', jen_Len (Stmt fieldPath)],
                                 Stmt [jen_Id (loop_var index), jen_Op ''++'']],
                        jen_Block [Stmt inner]], h'))
           else encapsulate (index + 1) callFn flds h)"
  by pat_completeness auto
termination
  by (relation "measure (\<lambda>(index, callFn, flds, h). length (arrays h flds) - index)")
     (auto simp: store_elem_def)

declare encapsulate.simps [simp del]

section \<open>The Reference record and the terminal calls\<close>

text \<open>\<open>Reference\<close> (declared beside \<open>ReferenceProcessor\<close>). \<open>GoValueFieldPath\<close> is a
  \<open>[]string\<close>, hence an address of the store. \<open>SourceType\<close> is declared a string, the
  printed form of the type; \<open>ref.SourceType.String()\<close> in resolver.go is that text.\<close>

record Reference =
  RemoteType :: statement
  Extractor :: statement
  RemoteListType :: statement
  GoValueFieldPath :: addr
  GoRefFieldName :: string
  GoSelectorFieldName :: string
  IsSlice :: bool
  IsPointer :: bool
  SourceType :: string
  SourceName :: string

text \<open>\<open>prefixPath\<close>: \<open>jen.Id(fields[0])\<close> followed by \<open>.Dot(fields[i])\<close> for
  \<open>1 \<le> i < len(fields) - 1\<close>.\<close>

definition prefixPath_of :: "string list \<Rightarrow> statement" where
  "prefixPath_of flds =
     jen_Id (flds ! 0) # map (\<lambda>i. jen_Dot (flds ! i)) [1..<length flds - 1]"

text \<open>\<open>jen.Return(jen.Qual("github.com/pkg/errors", "Wrap").Call(jen.Err(),
  jen.Lit(strings.Join(ref.GoValueFieldPath, "."))))\<close>, with the joined string as
  argument.\<close>

definition return_wrapped :: "string \<Rightarrow> statement" where
  "return_wrapped msg =
     [jen_Return [Stmt [jen_Qual ''github.com/pkg/errors'' ''Wrap'',
                        jen_Call [Stmt [jen_Err], Stmt [jen_LitStr msg]]]]]"

definition singleResolutionCall :: "Reference \<Rightarrow> string \<Rightarrow> resolutionCallFn" where
  "singleResolutionCall ref referencePkgPath h flds =
     (if arrays h flds = [] then Inl IndexOutOfRange
      else
        let prefixPath = prefixPath_of (arrays h flds);
            currentValuePath =
              prefixPath @ [jen_Dot (arrays h flds ! (length (arrays h flds) - 1))];
            referenceFieldPath = prefixPath @ [jen_Dot (GoRefFieldName ref)];
            selectorFieldPath = prefixPath @ [jen_Dot (GoSelectorFieldName ref)];
            ident = ''v'' @ SourceName ref;
            setResolvedValue =
              (if IsPointer ref then
                 [Stmt [jen_Var, jen_Id ident, jen_Op (SourceType ref)],
                  Stmt [jen_Line],
                  Stmt [jen_If [Stmt [jen_Err, jen_Op ''='',
                                      jen_Qual referencePkgPath ''ToPtrValue'',
                                      jen_Call [Stmt [jen_Id ''rsp'', jen_Dot ''ResolvedValue''],
                                                Stmt [jen_Id ident]]],
                                Stmt [jen_Err, jen_Op ''!='', jen_Nil]],
                        jen_Block [Stmt (return_wrapped
                                     (Join (arrays h (GoValueFieldPath ref)) ''.''))]],
                  Stmt [jen_Line],
                  Stmt (currentValuePath @ [jen_Op ''='', jen_Id ident])]
               else currentValuePath @ [jen_Op ''='', jen_Id ''rsp'', jen_Dot ''ResolvedValue'']);
            currentValue =
              (if IsPointer ref then
                 [jen_Qual referencePkgPath ''FromPtrValue'', jen_Call [Stmt currentValuePath]]
               else currentValuePath)
        in Inr
          [Stmt [jen_List [Stmt [jen_Id ''rsp''], Stmt [jen_Err]], jen_Op ''='',
                 jen_Id ''r'', jen_Dot ''Resolve'',
                 jen_Call
                   [Stmt [jen_Id ''ctx''],
                    Stmt [jen_Qual referencePkgPath ''ResolutionRequest'',
                          jen_Values [jen_Dict
                            [(Stmt [jen_Id ''CurrentValue''], Stmt currentValue),
                             (Stmt [jen_Id ''Reference''], Stmt referenceFieldPath),
                             (Stmt [jen_Id ''Selector''], Stmt selectorFieldPath),
                             (Stmt [jen_Id ''To''],
                              Stmt [jen_Qual referencePkgPath ''To'',
                                    jen_Values [jen_Dict
                                      [(Stmt [jen_Id ''Managed''], Stmt (RemoteType ref)),
                                       (Stmt [jen_Id ''List''], Stmt (RemoteListType ref))]]]),
                             (Stmt [jen_Id ''Extract''], Stmt (Extractor ref))]]]]],
           Stmt [jen_Line],
           Stmt [jen_If [Stmt [jen_Err, jen_Op ''!='', jen_Nil]],
                 jen_Block [Stmt (return_wrapped
                              (Join (arrays h (GoValueFieldPath ref)) ''.''))]],
           Stmt [jen_Line],
           Stmt setResolvedValue,
           Stmt [jen_Line],
           Stmt (referenceFieldPath @ [jen_Op ''='', jen_Id ''rsp'', jen_Dot ''ResolvedReference'']),
           Stmt [jen_Line]])"

definition multiResolutionCall :: "Reference \<Rightarrow> string \<Rightarrow> resolutionCallFn" where
  "multiResolutionCall ref referencePkgPath h flds =
     (if arrays h flds = [] then Inl IndexOutOfRange
      else
        let prefixPath = prefixPath_of (arrays h flds);
            currentValuePath =
              prefixPath @ [jen_Dot (arrays h flds ! (length (arrays h flds) - 1))];
            referenceFieldPath = prefixPath @ [jen_Dot (GoRefFieldName ref)];
            selectorFieldPath = prefixPath @ [jen_Dot (GoSelectorFieldName ref)];
            ident = ''v'' @ SourceName ref;
            setResolvedValues =
              (if IsPointer ref then
                 [Stmt [jen_Id ident, jen_Op '':='',
                        jen_Make [Stmt [jen_Op (SourceType ref)],
                                  Stmt [jen_Len (Stmt [jen_Id ''mrsp'', jen_Dot ''ResolvedValues''])]]],
                  Stmt [jen_Line],
                  Stmt [jen_If [Stmt [jen_Err, jen_Op ''='',
                                      jen_Qual referencePkgPath ''ToPtrValues'',
                                      jen_Call [Stmt [jen_Id ''mrsp'', jen_Dot ''ResolvedValues''],
                                                Stmt [jen_Id ident]]],
                                Stmt [jen_Err, jen_Op ''!='', jen_Nil]],
                        jen_Block [Stmt (return_wrapped
                                     (Join (arrays h (GoValueFieldPath ref)) ''.''))]],
                  Stmt [jen_Line],
                  Stmt (currentValuePath @ [jen_Op ''='', jen_Id ident])]
               else currentValuePath @ [jen_Op ''='', jen_Id ''mrsp'', jen_Dot ''ResolvedValues'']);
            currentValues =
              (if IsPointer ref then
                 [jen_Qual referencePkgPath ''FromPtrValues'', jen_Call [Stmt currentValuePath]]
               else currentValuePath)
        in Inr
          [Stmt [jen_List [Stmt [jen_Id ''mrsp''], Stmt [jen_Err]], jen_Op ''='',
                 jen_Id ''r'', jen_Dot ''ResolveMultiple'',
                 jen_Call
                   [Stmt [jen_Id ''ctx''],
                    Stmt [jen_Qual referencePkgPath ''MultiResolutionRequest'',
                          jen_Values [jen_Dict
                            [(Stmt [jen_Id ''CurrentValues''], Stmt currentValues),
                             (Stmt [jen_Id ''References''], Stmt referenceFieldPath),
                             (Stmt [jen_Id ''Selector''], Stmt selectorFieldPath),
                             (Stmt [jen_Id ''To''],
                              Stmt [jen_Qual referencePkgPath ''To'',
                                    jen_Values [jen_Dict
                                      [(Stmt [jen_Id ''Managed''], Stmt (RemoteType ref)),
                                       (Stmt [jen_Id ''List''], Stmt (RemoteListType ref))]]]),
                             (Stmt [jen_Id ''Extract''], Stmt (Extractor ref))]]]]],
           Stmt [jen_Line],
           Stmt [jen_If [Stmt [jen_Err, jen_Op ''!='', jen_Nil]],
                 jen_Block [Stmt (return_wrapped
                              (Join (arrays h (GoValueFieldPath ref)) ''.''))]],
           Stmt [jen_Line],
           Stmt setResolvedValues,
           Stmt [jen_Line],
           Stmt (referenceFieldPath @ [jen_Op ''='', jen_Id ''mrsp'', jen_Dot ''ResolvedReferences'']),
           Stmt [jen_Line]])"

section \<open>The reference processor\<close>

text \<open>The types of \<open>go/types\<close> that \<open>Process\<close> tells apart, and their printed form
  (\<open>String()\<close>). \<open>Named\<close> carries the name of the declared type.\<close>

datatype gotype =
    Basic string
  | Named string
  | Pointer gotype
  | Slice gotype
  | Array nat gotype
  | Map gotype gotype

fun type_String :: "gotype \<Rightarrow> string" where
  "type_String (Basic n) = n"
| "type_String (Named n) = n"
| "type_String (Pointer t) = ''*'' @ type_String t"
| "type_String (Slice t) = ''[]'' @ type_String t"
| "type_String (Array n t) = ''['' @ decimal n @ '']'' @ type_String t"
| "type_String (Map k v) = ''map['' @ type_String k @ '']'' @ type_String v"

text \<open>A \<open>types.Var\<close> (and the \<open>types.Object\<close> handed to the generator): a name and a
  type.\<close>

record types_Var =
  Name :: string
  Type :: gotype

definition ReferenceTypeMarker :: string where
  "ReferenceTypeMarker = ''crossplane:generate:reference:type''"

definition ReferenceExtractorMarker :: string where
  "ReferenceExtractorMarker = ''crossplane:generate:reference:extractor''"

definition ReferenceReferenceFieldNameMarker :: string where
  "ReferenceReferenceFieldNameMarker = ''crossplane:generate:reference:refFieldName''"

definition ReferenceSelectorFieldNameMarker :: string where
  "ReferenceSelectorFieldNameMarker = ''crossplane:generate:reference:selectorFieldName''"

record ReferenceProcessor =
  DefaultExtractor :: statement
  Receiver :: string
  refs :: "Reference list"

definition WithDefaultExtractor :: "statement \<Rightarrow> ReferenceProcessor \<Rightarrow> ReferenceProcessor" where
  "WithDefaultExtractor ext rp = rp\<lparr>DefaultExtractor := ext\<rparr>"

text \<open>A nil \<open>*jen.Statement\<close> is the empty statement.\<close>

definition NewReferenceProcessor ::
  "string \<Rightarrow> (ReferenceProcessor \<Rightarrow> ReferenceProcessor) list \<Rightarrow> ReferenceProcessor" where
  "NewReferenceProcessor receiver opts =
     fold (\<lambda>f rp. f rp) opts \<lparr>DefaultExtractor = [], Receiver = receiver, refs = []\<rparr>"

definition GetReferences :: "ReferenceProcessor \<Rightarrow> Reference list" where
  "GetReferences rp = refs rp"

definition getTypeCodeFromPath :: "string \<Rightarrow> string list \<Rightarrow> statement" where
  "getTypeCodeFromPath path nameSuffix =
     (let words = Split path CHR ''.'' in
      if length words = 1 then
        [jen_Op ''&'', jen_Id (path @ Join nameSuffix []), jen_Values []]
      else
        let name = words ! (length words - 1) @ Join nameSuffix [];
            pkg = TrimSuffix path (''.'' @ words ! (length words - 1))
        in [jen_Op ''&'', jen_Qual pkg name, jen_Values []])"

definition getFuncCodeFromPath :: "string \<Rightarrow> statement" where
  "getFuncCodeFromPath path =
     (let words = Split path CHR ''.'' in
      if length words = 1 then [jen_Id path]
      else
        let name = words ! (length words - 1);
            pkg = TrimSuffix path (''.'' @ words ! (length words - 1))
        in [jen_Qual pkg name])"

text \<open>\<open>values[0]\<close> on the value of a map entry: a panic when the list is empty.\<close>

definition first_value :: "string list \<Rightarrow> failure + string" where
  "first_value vs = (case vs of [] \<Rightarrow> Inl IndexOutOfRange | v # _ \<Rightarrow> Inr v)"

text \<open>The marker parser \<open>comments.ParseMarkers\<close> is not part of these sources: it is the
  parameter \<open>ParseMarkers\<close>, a function from the comment to a map from marker names to
  their values. \<open>markers[k]\<close> of a missing key is the nil list.

  \<open>Process\<close> returns its \<open>error\<close> result (never set) with the updated processor and
  store, or panics.\<close>

type_synonym markers = "string \<rightharpoonup> string list"

type_synonym process_result = "failure + (string option \<times> ReferenceProcessor \<times> heap)"

definition Process ::
  "(string \<Rightarrow> markers) \<Rightarrow> ReferenceProcessor \<Rightarrow> heap \<Rightarrow>
   gotype \<Rightarrow> types_Var \<Rightarrow> string \<Rightarrow> string \<Rightarrow> string list \<Rightarrow> process_result" where
  "Process ParseMarkers rp h named f tag comment parentFields =
     (let markers = ParseMarkers comment;
          refTypeValues = (case markers ReferenceTypeMarker of None \<Rightarrow> [] | Some vs \<Rightarrow> vs)
      in if length refTypeValues = 0 then Inr (None, rp, h)
      else
        let refType = refTypeValues ! 0;
            (isPointer, isList, sourceType) =
              (case Type f of
                 Pointer e \<Rightarrow> (True, False, type_String e)
               | Slice e \<Rightarrow>
                   (case e of
                      Pointer e' \<Rightarrow> (True, True, type_String e')
                    | _ \<Rightarrow> (False, True, []))
               | _ \<Rightarrow> (False, False, []))
        in
        case (case markers ReferenceExtractorMarker of
                None \<Rightarrow> Inr (DefaultExtractor rp)
              | Some values \<Rightarrow>
                  (case first_value values of
                     Inl e \<Rightarrow> Inl e | Inr v \<Rightarrow> Inr (getFuncCodeFromPath v))) of
          Inl e \<Rightarrow> Inl e
        | Inr extractorPath \<Rightarrow>
        case (case markers ReferenceReferenceFieldNameMarker of
                None \<Rightarrow> Inr (if isList then Name f @ ''Refs'' else Name f @ ''Ref'')
              | Some values \<Rightarrow> first_value values) of
          Inl e \<Rightarrow> Inl e
        | Inr refFieldName \<Rightarrow>
        case (case markers ReferenceSelectorFieldNameMarker of
                None \<Rightarrow> Inr (Name f @ ''Selector'')
              | Some values \<Rightarrow> first_value values) of
          Inl e \<Rightarrow> Inl e
        | Inr selectorFieldName \<Rightarrow>
        let path = Receiver rp # parentFields;
            (a, h') = alloc (path @ [Name f]) h
        in Inr (None,
                rp\<lparr>refs := refs rp @
                  [\<lparr>RemoteType = getTypeCodeFromPath refType [],
                    Extractor = extractorPath,
                    RemoteListType = getTypeCodeFromPath refType [''List''],
                    GoValueFieldPath = a,
                    GoRefFieldName = refFieldName,
                    GoSelectorFieldName = selectorFieldName,
                    IsSlice = isList,
                    IsPointer = isPointer,
                    SourceType = sourceType,
                    SourceName = Name f\<rparr>]\<rparr>,
                h'))"


section \<open>The synthesizer: \<open>NewResolveReferences\<close>\<close>

text \<open>The loop \<open>for i, ref := range refs\<close>: one call of \<open>encapsulate\<close> per reference, on
  the slice \<open>ref.GoValueFieldPath\<close> itself, each result followed by \<open>.Line()\<close>. The state
  of the loop is the two flags and the store.\<close>

fun resolverCalls_loop ::
  "string \<Rightarrow> Reference list \<Rightarrow> bool \<Rightarrow> bool \<Rightarrow> heap \<Rightarrow>
   failure + (statement \<times> bool \<times> bool \<times> heap)" where
  "resolverCalls_loop referencePkgPath [] hasMultiResolution hasSingleResolution h =
     Inr ([], hasMultiResolution, hasSingleResolution, h)"
| "resolverCalls_loop referencePkgPath (ref # rest) hasMultiResolution hasSingleResolution h =
     (if IsSlice ref then
        (case encapsulate 0 (multiResolutionCall ref referencePkgPath) (GoValueFieldPath ref) h of
           Inl e \<Rightarrow> Inl e
         | Inr (s, h') \<Rightarrow>
             (case resolverCalls_loop referencePkgPath rest True hasSingleResolution h' of
                Inl e \<Rightarrow> Inl e
              | Inr (calls, m, sg, h'') \<Rightarrow> Inr (Stmt (s @ [jen_Line]) # calls, m, sg, h'')))
      else
        (case encapsulate 0 (singleResolutionCall ref referencePkgPath) (GoValueFieldPath ref) h of
           Inl e \<Rightarrow> Inl e
         | Inr (s, h') \<Rightarrow>
             (case resolverCalls_loop referencePkgPath rest hasMultiResolution True h' of
                Inl e \<Rightarrow> Inl e
              | Inr (calls, m, sg, h'') \<Rightarrow> Inr (Stmt (s @ [jen_Line]) # calls, m, sg, h''))))"

text \<open>\<open>initStatements\<close>: the declarations of the two response variables.\<close>

definition initStatements_of :: "string \<Rightarrow> bool \<Rightarrow> bool \<Rightarrow> statement" where
  "initStatements_of referencePkgPath hasSingleResolution hasMultiResolution =
     (if hasSingleResolution
      then [Stmt [jen_Var, jen_Id ''rsp'', jen_Qual referencePkgPath ''ResolutionResponse'']]
      else []) @
     (if hasMultiResolution
      then [Stmt [jen_Line, jen_Var, jen_Id ''mrsp'',
                  jen_Qual referencePkgPath ''MultiResolutionResponse'']]
      else [])"

text \<open>The method written by \<open>f.Func()...\<close>: receiver, name, parameters, result and
  body.\<close>

definition ResolveReferences_method ::
  "string \<Rightarrow> string \<Rightarrow> string \<Rightarrow> string \<Rightarrow> statement \<Rightarrow> statement \<Rightarrow> statement" where
  "ResolveReferences_method receiver clientPath referencePkgPath oname initStatements resolverCalls =
     [jen_Func,
      jen_Params [Stmt [jen_Id receiver, jen_Op ''*'', jen_Id oname]],
      jen_Id ''ResolveReferences'',
      jen_Params [Stmt [jen_Id ''ctx'', jen_Qual ''context'' ''Context''],
                  Stmt [jen_Id ''c'', jen_Qual clientPath ''Reader'']],
      jen_Error,
      jen_Block
        [Stmt [jen_Id ''r'', jen_Op '':='', jen_Qual referencePkgPath ''NewAPIResolver'',
               jen_Call [Stmt [jen_Id ''c''], Stmt [jen_Id receiver]]],
         Stmt [jen_Line],
         Stmt initStatements,
         Stmt [jen_Var, jen_Err, jen_Error],
         Stmt [jen_Line],
         Stmt resolverCalls,
         Stmt [jen_Line],
         Stmt [jen_Return [Stmt [jen_Nil]]]]]"

text \<open>Lines 48 to 82 of \<open>NewResolveReferences\<close>: from the accumulated references to the
  file. The file \<open>f\<close> is the list of the statements written to it; the result is the
  file and the store afterwards.\<close>

definition emit_ResolveReferences ::
  "string \<Rightarrow> string \<Rightarrow> string \<Rightarrow> statement \<Rightarrow> types_Var \<Rightarrow> Reference list \<Rightarrow> heap \<Rightarrow>
   failure + (statement \<times> heap)" where
  "emit_ResolveReferences receiver clientPath referencePkgPath f obj rs h =
     (if length rs = 0 then Inr (f, h)
      else
        case resolverCalls_loop referencePkgPath rs False False h of
          Inl e \<Rightarrow> Inl e
        | Inr (resolverCalls, hasMultiResolution, hasSingleResolution, h') \<Rightarrow>
            Inr (f @
                 [Stmt [jen_Comment (''ResolveReferences of this '' @ Name obj @ ''.'')],
                  Stmt (ResolveReferences_method receiver clientPath referencePkgPath (Name obj)
                          (initStatements_of referencePkgPath hasSingleResolution hasMultiResolution)
                          resolverCalls)],
                 h'))"

text \<open>The traversal engine (\<open>xptypes.Traverser\<close>) is not part of these sources: it is the
  parameter \<open>Traverse\<close>, which is given the named type and the field processor and
  transforms the processor and the store, returning its \<open>error\<close> result or panicking.\<close>

type_synonym field_processor =
  "ReferenceProcessor \<Rightarrow> heap \<Rightarrow> gotype \<Rightarrow> types_Var \<Rightarrow> string \<Rightarrow> string \<Rightarrow> string list \<Rightarrow>
   process_result"

type_synonym traverser =
  "gotype \<Rightarrow> field_processor \<Rightarrow> ReferenceProcessor \<Rightarrow> heap \<Rightarrow> process_result"

definition NewResolveReferences ::
  "(string \<Rightarrow> markers) \<Rightarrow> traverser \<Rightarrow> string \<Rightarrow> string \<Rightarrow> string \<Rightarrow>
   statement \<Rightarrow> types_Var \<Rightarrow> heap \<Rightarrow> failure + (statement \<times> heap)" where
  "NewResolveReferences ParseMarkers Traverse receiver clientPath referencePkgPath f obj h =
     (case Type obj of
        Named n \<Rightarrow>
          (let refProcessor = NewReferenceProcessor receiver
                 [WithDefaultExtractor [jen_Qual referencePkgPath ''ExternalName'', jen_Call []]]
           in case Traverse (Type obj) (Process ParseMarkers) refProcessor h of
                Inl e \<Rightarrow> Inl e
              | Inr (Some err, rp, h') \<Rightarrow>
                  Inl (TraversePanic (''cannot traverse the type tree of '' @ n @ '': '' @ err))
              | Inr (None, rp, h') \<Rightarrow>
                  emit_ResolveReferences receiver clientPath referencePkgPath f obj
                    (GetReferences rp) h')
      | _ \<Rightarrow> Inr (f, h))"


section \<open>The guard builder as the specification words it\<close>

text \<open>The specification describes the guard builder as a recursion over the list of
  segments, from left to right, with the narrowed path so far as accumulator, while
  \<open>encapsulate\<close> works by index on an array that it overwrites. This section has
  that recursion twice: \<open>guard_builder\<close>, on the segments as the generator writes
  them (strings with marker prefixes, read with the generator's own \<open>HasPrefix\<close> and
  cleaner), which is the stepping stone of the proofs, and \<open>consume_segments\<close>, on
  segments tagged with their shape, which follows the words of the specification and
  uses nothing of the generator.\<close>

text \<open>The store \<open>h\<close> with the array at \<open>a\<close> replaced by \<open>p\<close>.\<close>

definition set_path :: "addr \<Rightarrow> string list \<Rightarrow> heap \<Rightarrow> heap" where
  "set_path a p h = h\<lparr>arrays := (arrays h)(a := p)\<rparr>"

text \<open>The expression \<open>x0.x1. ... .xn\<close> of a list of names.\<close>

definition dotted :: "string list \<Rightarrow> statement" where
  "dotted xs = jen_Id (xs ! 0) # map jen_Dot (tl xs)"

text \<open>\<open>if path != nil { body }\<close>\<close>

definition null_guard :: "statement \<Rightarrow> statement \<Rightarrow> statement" where
  "null_guard path body =
     [jen_If [Stmt (path @ [jen_Op ''!='', jen_Nil])], jen_Block [Stmt body]]"

text \<open>\<open>for i := 0; i < len(path); i++ { body }\<close>\<close>

definition bounded_iteration :: "string \<Rightarrow> statement \<Rightarrow> statement \<Rightarrow> statement" where
  "bounded_iteration i path body =
     [jen_For [Stmt [jen_Id i, jen_Op '':='', jen_LitInt 0],
               Stmt [jen_Id i, jen_Op ''<'', jen_Len (Stmt path)],
               Stmt [jen_Id i, jen_Op ''++'']],
      jen_Block [Stmt body]]"

text \<open>What a segment at position \<open>i\<close> becomes for the scope it wraps: an optional
  segment loses its marker, a repeated one loses it and gains the index \<open>[i<i>]\<close>, a
  plain one stays.\<close>

definition narrow_segment :: "nat \<Rightarrow> string \<Rightarrow> string" where
  "narrow_segment i seg =
     (if HasPrefix seg ''*'' then cleaner_Replace seg
      else if HasPrefix seg ''[]'' then cleaner_Replace seg @ ''['' @ loop_var i @ '']''
      else seg)"

fun narrow :: "nat \<Rightarrow> string list \<Rightarrow> string list" where
  "narrow i [] = []"
| "narrow i (seg # rest) = narrow_segment i seg # narrow (Suc i) rest"

text \<open>\<open>guard_builder current segments emit\<close>: \<open>current\<close> is the narrowed path of the
  segments consumed so far, \<open>segments\<close> the ones still to come, \<open>emit\<close> the terminal
  call-emission function.\<close>

fun guard_builder ::
  "string list \<Rightarrow> string list \<Rightarrow> (string list \<Rightarrow> failure + statement) \<Rightarrow> failure + statement" where
  "guard_builder current [] emit = emit current"
| "guard_builder current (seg # rest) emit =
     (if HasPrefix seg ''*'' then
        (case guard_builder (current @ [cleaner_Replace seg]) rest emit of
           Inl e \<Rightarrow> Inl e
         | Inr body \<Rightarrow> Inr (null_guard (dotted (map cleaner_Replace (current @ [seg]))) body))
      else if HasPrefix seg ''[]'' then
        (case guard_builder
                (current @ [cleaner_Replace seg @ ''['' @ loop_var (length current) @ '']''])
                rest emit of
           Inl e \<Rightarrow> Inl e
         | Inr body \<Rightarrow>
             Inr (bounded_iteration (loop_var (length current))
                    (dotted (map cleaner_Replace (current @ [seg]))) body))
      else guard_builder (current @ [seg]) rest emit)"

text \<open>A field name as Go writes it has none of the characters of the markers.\<close>

definition go_identifier :: "string \<Rightarrow> bool" where
  "go_identifier s = (CHR ''*'' \<notin> set s \<and> CHR ''['' \<notin> set s \<and> CHR '']'' \<notin> set s)"

text \<open>The value field path of the specification: an ordered list of segments, each the
  name of a field tagged with its shape. In the arrays of the generator the tag is
  written as a prefix of the name: none for a plain segment, \<open>*\<close> for an optional one,
  \<open>[]\<close> for a repeated one.\<close>

datatype shape = Plain | Optional | Repeated

type_synonym segment = "shape \<times> string"

fun written :: "segment \<Rightarrow> string" where
  "written (Plain, name) = name"
| "written (Optional, name) = ''*'' @ name"
| "written (Repeated, name) = ''[]'' @ name"

text \<open>The indexed element access \<open>name[i<k>]\<close> of the repeated field \<open>name\<close> at
  position \<open>k\<close> of the path.\<close>

definition element_access :: "string \<Rightarrow> nat \<Rightarrow> string" where
  "element_access name k = name @ ''[i'' @ decimal k @ '']''"

text \<open>The path of the segments as the scope inside all their guards and loops sees it,
  the first of them at position \<open>k\<close>: the bare names, a repeated segment replaced by
  its indexed element access.\<close>

fun scoped :: "nat \<Rightarrow> segment list \<Rightarrow> string list" where
  "scoped k [] = []"
| "scoped k ((Plain, name) # rest) = name # scoped (Suc k) rest"
| "scoped k ((Optional, name) # rest) = name # scoped (Suc k) rest"
| "scoped k ((Repeated, name) # rest) = element_access name k # scoped (Suc k) rest"

text \<open>The guard-building algorithm of the specification, on tagged segments:
  \<open>current\<close> is the path of the segments consumed so far, as the current scope sees
  it. A plain segment gives no guard and no loop; an optional segment gives the null
  guard on the current path with that field, around the rest, which sees the field
  without a marker; a repeated segment gives the iteration from 0 while the index is
  below the length of the current path with that field, around the rest, which sees
  the indexed element access; with no segment left, the terminal call-emission
  function is called on the current path.\<close>

fun consume_segments ::
  "string list \<Rightarrow> segment list \<Rightarrow> (string list \<Rightarrow> failure + statement) \<Rightarrow>
   failure + statement" where
  "consume_segments current [] emit = emit current"
| "consume_segments current ((Plain, name) # rest) emit =
     consume_segments (current @ [name]) rest emit"
| "consume_segments current ((Optional, name) # rest) emit =
     (case consume_segments (current @ [name]) rest emit of
        Inl e \<Rightarrow> Inl e
      | Inr body \<Rightarrow> Inr (null_guard (dotted (current @ [name])) body))"
| "consume_segments current ((Repeated, name) # rest) emit =
     (case consume_segments (current @ [element_access name (length current)]) rest emit of
        Inl e \<Rightarrow> Inl e
      | Inr body \<Rightarrow>
          Inr (bounded_iteration (''i'' @ decimal (length current))
                 (dotted (current @ [name])) body))"

section \<open>Reading the emitted procedure\<close>

text \<open>The call that \<open>NewResolveReferences\<close> hands to \<open>encapsulate\<close> for a reference.\<close>

definition resolution_call :: "Reference \<Rightarrow> string \<Rightarrow> resolutionCallFn" where
  "resolution_call ref referencePkgPath =
     (if IsSlice ref then multiResolutionCall ref referencePkgPath
      else singleResolutionCall ref referencePkgPath)"

text \<open>The body of a statement that is one guard or one loop around a block.\<close>

definition guard_body :: "statement \<Rightarrow> statement option" where
  "guard_body s =
     (case s of
        [g, b] \<Rightarrow>
          (case b of
             jen_Block [Stmt body] \<Rightarrow>
               (case g of jen_If c \<Rightarrow> Some body | jen_For c \<Rightarrow> Some body | _ \<Rightarrow> None)
           | _ \<Rightarrow> None)
      | _ \<Rightarrow> None)"

text \<open>The statements inside all the guards and loops of a block.\<close>

function innermost :: "statement \<Rightarrow> statement" where
  "innermost s = (case guard_body s of Some body \<Rightarrow> innermost body | None \<Rightarrow> s)"
  by pat_completeness auto
termination
  by (relation "measure (size_list size)")
     (auto simp: guard_body_def split: list.splits code.splits)

declare innermost.simps [simp del]

text \<open>A lookup call: \<open>rsp, err = r.Resolve(...)\<close> or
  \<open>mrsp, err = r.ResolveMultiple(...)\<close>.\<close>

definition is_lookup_call :: "code \<Rightarrow> bool" where
  "is_lookup_call c =
     (case c of
        Stmt xs \<Rightarrow>
          length xs = 5 \<and>
          (take 4 xs = [jen_List [Stmt [jen_Id ''rsp''], Stmt [jen_Err]], jen_Op ''='',
                        jen_Id ''r'', jen_Dot ''Resolve''] \<or>
           take 4 xs = [jen_List [Stmt [jen_Id ''mrsp''], Stmt [jen_Err]], jen_Op ''='',
                        jen_Id ''r'', jen_Dot ''ResolveMultiple'']) \<and>
          (case xs ! 4 of jen_Call args \<Rightarrow> True | _ \<Rightarrow> False)
      | _ \<Rightarrow> False)"

text \<open>The failure check of the specification, token by token:
  \<open>if err != nil { return errors.Wrap(err, "<context>") }\<close>.\<close>

definition failure_check :: "string \<Rightarrow> code" where
  "failure_check context =
     Stmt [jen_If [Stmt [jen_Err, jen_Op ''!='', jen_Nil]],
           jen_Block
             [Stmt [jen_Return
                      [Stmt [jen_Qual ''github.com/pkg/errors'' ''Wrap'',
                             jen_Call [Stmt [jen_Err], Stmt [jen_LitStr context]]]]]]]"

text \<open>The full dotted path of the specification: the names of a path with a dot
  between them.\<close>

fun dotted_path :: "string list \<Rightarrow> string" where
  "dotted_path [] = []"
| "dotted_path (x # xs) = x @ concat (map (\<lambda>name. CHR ''.'' # name) xs)"

text \<open>The arguments of a group token, and the \<open>i\<close>-th of them.\<close>

fun items :: "code \<Rightarrow> code list" where
  "items (Stmt cs) = cs"
| "items (jen_Block cs) = cs"
| "items (jen_Return cs) = cs"
| "items (jen_Call cs) = cs"
| "items c = []"

definition item :: "code \<Rightarrow> nat \<Rightarrow> code" where
  "item c i = (if i < length (items c) then items c ! i else jen_Nil)"

fun lit_string :: "code \<Rightarrow> string" where
  "lit_string (jen_LitStr s) = s"
| "lit_string c = []"

text \<open>The string at the place of the context in a failure check; a statement is a
  failure check when it is the check of that string.\<close>

definition check_context :: "code \<Rightarrow> string" where
  "check_context c =
     lit_string (item (item (item (item (item (item (item c 1) 0) 0) 0) 1) 1) 0)"

definition is_failure_check :: "code \<Rightarrow> bool" where
  "is_failure_check c = (c = failure_check (check_context c))"

text \<open>An \<open>if\<close> that tests \<open>err\<close> (its condition ends with \<open>err != nil\<close>), and a block
  that is one \<open>return\<close> statement.\<close>

definition tests_err :: "code \<Rightarrow> bool" where
  "tests_err c =
     (case c of
        jen_If conds \<Rightarrow> conds \<noteq> [] \<and> last conds = Stmt [jen_Err, jen_Op ''!='', jen_Nil]
      | _ \<Rightarrow> False)"

definition is_return :: "code \<Rightarrow> bool" where
  "is_return b = (b = jen_Block [Stmt [jen_Return (items (item (item b 0) 0))]])"

text \<open>In a list of statements, every lookup call is followed by the line break and a
  failure check, and the block of every \<open>if\<close> that tests \<open>err\<close> is one \<open>return\<close>
  statement.\<close>

fun follows_check :: "code list \<Rightarrow> bool" where
  "follows_check [] = True"
| "follows_check (c # cs) =
     ((if is_lookup_call c
       then (case cs of l # k # rest \<Rightarrow> l = Stmt [jen_Line] \<and> is_failure_check k | _ \<Rightarrow> False)
       else True) \<and>
      (if tests_err c then (case cs of b # rest \<Rightarrow> is_return b | [] \<Rightarrow> False) else True) \<and>
      follows_check cs)"

text \<open>The same in every statement list and block of a piece of code.\<close>

fun all_checked :: "code \<Rightarrow> bool" where
  "all_checked (Stmt cs) = (follows_check cs \<and> list_all all_checked cs)"
| "all_checked (jen_Block cs) = (follows_check cs \<and> list_all all_checked cs)"
| "all_checked c = True"

text \<open>Declarations \<open>var x ...\<close>: the places of a statement where \<open>var\<close> is followed by
  the name \<open>x\<close>, and their number in the statement lists and blocks of a piece of
  code.\<close>

fun var_pairs :: "string \<Rightarrow> code list \<Rightarrow> nat" where
  "var_pairs x (c # d # cs) =
     (if c = jen_Var \<and> d = jen_Id x then 1 else 0) + var_pairs x (d # cs)"
| "var_pairs x cs = 0"

fun var_decls :: "string \<Rightarrow> code \<Rightarrow> nat" where
  "var_decls x (Stmt cs) = var_pairs x cs + sum_list (map (var_decls x) cs)"
| "var_decls x (jen_Block cs) = sum_list (map (var_decls x) cs)"
| "var_decls x c = 0"

text \<open>The store after the synthesizer has gone through the references: each path, in
  turn, narrowed in place.\<close>

definition narrow_path :: "Reference \<Rightarrow> heap \<Rightarrow> heap" where
  "narrow_path ref h =
     set_path (GoValueFieldPath ref) (narrow 0 (arrays h (GoValueFieldPath ref))) h"

text \<open>The path of a reference in the store that a run of the synthesizer leaves.\<close>

definition path_after :: "failure + (statement \<times> heap) \<Rightarrow> Reference \<Rightarrow> string list" where
  "path_after res ref =
     (case res of Inl e \<Rightarrow> [] | Inr (f, h) \<Rightarrow> arrays h (GoValueFieldPath ref))"

section \<open>Running the emitted method\<close>

text \<open>What the emitted statements do at run time, as far as \<open>err\<close> and the lookups are
  concerned. The state is whether \<open>err\<close> is non-nil; a run of a list of statements
  makes a sequence of lookups, each of which succeeds or fails (\<open>True\<close> is a
  failure), and either falls through the end of the list or returns from the method.
  Everything the generator cannot know is left open: whether a lookup or a conversion
  fails, whether a guarded path is nil, how long a list is.\<close>

datatype outcome = Falls bool | Returns

text \<open>A token that does nothing to \<open>err\<close> and to the control flow on its own: not a
  statement, not the head of a compound statement, not \<open>return\<close> and not \<open>err\<close>.\<close>

definition is_token :: "code \<Rightarrow> bool" where
  "is_token c =
     (case c of
        Stmt xs \<Rightarrow> False
      | jen_If xs \<Rightarrow> False
      | jen_For xs \<Rightarrow> False
      | jen_Block xs \<Rightarrow> False
      | jen_Return xs \<Rightarrow> False
      | jen_Err \<Rightarrow> False
      | _ \<Rightarrow> True)"

text \<open>\<open>run cs e tr out\<close>: from a state where \<open>err\<close> is non-nil exactly if \<open>e\<close>, the
  statements \<open>cs\<close> can make the lookups \<open>tr\<close> and end in \<open>out\<close>. \<open>iterate\<close> is
  the same for any number of rounds of the body of a loop.
  \<^item> A lookup call assigns \<open>err\<close>: it fails or not.
  \<^item> Any other statement is run through its parts.
  \<^item> \<open>if err != nil { ... }\<close> runs its block exactly if \<open>err\<close> is set.
  \<^item> \<open>if err = f(...); err != nil { ... }\<close> assigns \<open>err\<close> and runs its block exactly if
    it is set then.
  \<^item> An \<open>if\<close> on a path (a condition that begins with a name) runs its block or not.
  \<^item> A \<open>for\<close> runs its block any number of times.
  \<^item> \<open>return\<close> returns.
  \<^item> \<open>var err error\<close> declares \<open>err\<close>, which is nil then.\<close>

inductive run :: "code list \<Rightarrow> bool \<Rightarrow> bool list \<Rightarrow> outcome \<Rightarrow> bool"
  and iterate :: "code list \<Rightarrow> bool \<Rightarrow> bool list \<Rightarrow> outcome \<Rightarrow> bool" where
  run_end: "run [] e [] (Falls e)"
| run_lookup:
    "is_lookup_call c \<Longrightarrow> run cs failed tr out \<Longrightarrow> run (c # cs) e (failed # tr) out"
| run_statement_returns:
    "\<not> is_lookup_call (Stmt xs) \<Longrightarrow> run xs e tr Returns \<Longrightarrow> run (Stmt xs # cs) e tr Returns"
| run_statement_falls:
    "\<not> is_lookup_call (Stmt xs) \<Longrightarrow> run xs e tr (Falls e') \<Longrightarrow> run cs e' tr' out \<Longrightarrow>
     run (Stmt xs # cs) e (tr @ tr') out"
| run_err_nil:
    "run cs False tr out \<Longrightarrow>
     run (jen_If [Stmt [jen_Err, jen_Op ''!='', jen_Nil]] # jen_Block blk # cs) False tr out"
| run_err_returns:
    "run blk True tr Returns \<Longrightarrow>
     run (jen_If [Stmt [jen_Err, jen_Op ''!='', jen_Nil]] # jen_Block blk # cs) True tr Returns"
| run_err_falls:
    "run blk True tr (Falls e') \<Longrightarrow> run cs e' tr' out \<Longrightarrow>
     run (jen_If [Stmt [jen_Err, jen_Op ''!='', jen_Nil]] # jen_Block blk # cs) True (tr @ tr') out"
| run_convert_nil:
    "run cs False tr out \<Longrightarrow>
     run (jen_If [Stmt (jen_Err # jen_Op ''='' # call), Stmt [jen_Err, jen_Op ''!='', jen_Nil]] #
          jen_Block blk # cs) e tr out"
| run_convert_returns:
    "run blk True tr Returns \<Longrightarrow>
     run (jen_If [Stmt (jen_Err # jen_Op ''='' # call), Stmt [jen_Err, jen_Op ''!='', jen_Nil]] #
          jen_Block blk # cs) e tr Returns"
| run_convert_falls:
    "run blk True tr (Falls e') \<Longrightarrow> run cs e' tr' out \<Longrightarrow>
     run (jen_If [Stmt (jen_Err # jen_Op ''='' # call), Stmt [jen_Err, jen_Op ''!='', jen_Nil]] #
          jen_Block blk # cs) e (tr @ tr') out"
| run_guard_skips:
    "run cs e tr out \<Longrightarrow> run (jen_If [Stmt (jen_Id x # path)] # jen_Block blk # cs) e tr out"
| run_guard_returns:
    "run blk e tr Returns \<Longrightarrow>
     run (jen_If [Stmt (jen_Id x # path)] # jen_Block blk # cs) e tr Returns"
| run_guard_falls:
    "run blk e tr (Falls e') \<Longrightarrow> run cs e' tr' out \<Longrightarrow>
     run (jen_If [Stmt (jen_Id x # path)] # jen_Block blk # cs) e (tr @ tr') out"
| run_for_returns:
    "iterate blk e tr Returns \<Longrightarrow> run (jen_For conds # jen_Block blk # cs) e tr Returns"
| run_for_falls:
    "iterate blk e tr (Falls e') \<Longrightarrow> run cs e' tr' out \<Longrightarrow>
     run (jen_For conds # jen_Block blk # cs) e (tr @ tr') out"
| run_return: "run (jen_Return results # cs) e [] Returns"
| run_var_err: "run cs False tr out \<Longrightarrow> run (jen_Var # jen_Err # jen_Error # cs) e tr out"
| run_token: "is_token c \<Longrightarrow> run cs e tr out \<Longrightarrow> run (c # cs) e tr out"
| iterate_done: "iterate blk e [] (Falls e)"
| iterate_returns: "run blk e tr Returns \<Longrightarrow> iterate blk e tr Returns"
| iterate_again:
    "run blk e tr (Falls e') \<Longrightarrow> iterate blk e' tr' out \<Longrightarrow> iterate blk e (tr @ tr') out"

text \<open>The statements of the body of an emitted method (the block is its sixth
  token).\<close>

definition method_body :: "code \<Rightarrow> code list" where
  "method_body m = (case item m 5 of jen_Block body \<Rightarrow> body | _ \<Rightarrow> [])"

text \<open>In a sequence of lookups, a failure can only be the last one.\<close>

definition failure_is_last :: "bool list \<Rightarrow> bool" where
  "failure_is_last tr = (True \<notin> set (butlast tr))"

text \<open>The two notions of the proof that a failure is last. \<open>at_check cs\<close>: the
  statements \<open>cs\<close> begin with a failure check, possibly after a line break.
  \<open>sound_run e tr out\<close>: a run that starts with \<open>err\<close> set makes no lookup and
  returns; a failure is the last lookup; a run that falls through has seen no failure
  and leaves \<open>err\<close> nil.\<close>

definition at_check :: "code list \<Rightarrow> bool" where
  "at_check cs =
     (case cs of
        [] \<Rightarrow> False
      | k # rest \<Rightarrow>
          is_failure_check k \<or>
          (k = Stmt [jen_Line] \<and> (case rest of [] \<Rightarrow> False | k' # rest' \<Rightarrow> is_failure_check k')))"

definition sound_run :: "bool \<Rightarrow> bool list \<Rightarrow> outcome \<Rightarrow> bool" where
  "sound_run e tr out =
     ((if e then tr = [] \<and> out = Returns else True) \<and>
      failure_is_last tr \<and>
      (case out of Falls e' \<Rightarrow> \<not> e' \<and> True \<notin> set tr | Returns \<Rightarrow> True))"

section \<open>Concrete inputs\<close>

text \<open>A store with two value field paths, a singular and a plural reference on them, a
  marker parser that knows one comment, and a field.\<close>

definition example_heap :: heap where
  "example_heap =
     \<lparr>arrays = (\<lambda>a. [])(0 := [''mg'', ''*Spec'', ''Name''],
                         Suc 0 := [''mg'', ''[]Items'', ''*Name'']),
      fresh = 2\<rparr>"

definition example_ref :: Reference where
  "example_ref =
     \<lparr>RemoteType = [jen_Op ''&'', jen_Id ''Foo'', jen_Values []],
      Extractor = [jen_Qual ''reference'' ''ExternalName'', jen_Call []],
      RemoteListType = [jen_Op ''&'', jen_Id ''FooList'', jen_Values []],
      GoValueFieldPath = 0,
      GoRefFieldName = ''NameRef'',
      GoSelectorFieldName = ''NameSelector'',
      IsSlice = False,
      IsPointer = False,
      SourceType = [],
      SourceName = ''Name''\<rparr>"

definition example_refs :: Reference where
  "example_refs =
     \<lparr>RemoteType = [jen_Op ''&'', jen_Id ''Foo'', jen_Values []],
      Extractor = [jen_Qual ''reference'' ''ExternalName'', jen_Call []],
      RemoteListType = [jen_Op ''&'', jen_Id ''FooList'', jen_Values []],
      GoValueFieldPath = Suc 0,
      GoRefFieldName = ''NameRefs'',
      GoSelectorFieldName = ''NameSelector'',
      IsSlice = True,
      IsPointer = True,
      SourceType = ''string'',
      SourceName = ''Name''\<rparr>"

definition example_comment :: string where
  "example_comment = ''+crossplane:generate:reference:type=Foo''"

definition example_markers :: "string \<Rightarrow> markers" where
  "example_markers comment =
     (if comment = example_comment
      then [ReferenceTypeMarker \<mapsto> [''Foo''], ReferenceReferenceFieldNameMarker \<mapsto> [''FooRef'']]
      else Map.empty)"

definition example_field :: types_Var where
  "example_field = \<lparr>Name = ''Name'', Type = Pointer (Basic ''string'')\<rparr>"

definition example_object :: types_Var where
  "example_object = \<lparr>Name = ''Bucket'', Type = Named ''Bucket''\<rparr>"

definition example_processor :: ReferenceProcessor where
  "example_processor = NewReferenceProcessor ''mg'' []"

text \<open>A traversal that hands the processor one field with no marker.\<close>

definition example_traverse :: traverser where
  "example_traverse named process rp h = process rp h named example_field [] [] [''Spec'']"

text \<open>A path with an optional and a repeated ancestor, in a store of its own, and a
  terminal function that shows the path it is called on.\<close>

definition nested_segments :: "segment list" where
  "nested_segments =
     [(Plain, ''mg''), (Optional, ''Spec''), (Repeated, ''Items''), (Plain, ''Name'')]"

definition nested_heap :: heap where
  "nested_heap =
     \<lparr>arrays = (\<lambda>a. [])(0 := [''mg'', ''*Spec'', ''[]Items'', ''Name'']), fresh = 1\<rparr>"

definition show_path :: resolutionCallFn where
  "show_path h flds = Inr [jen_LitStr (Join (arrays h flds) ''.'')]"

section \<open>The guard builder: \<open>encapsulate\<close> against the recursion over segments\<close>

lemma set_path_same [simp]: "set_path a (arrays h a) h = h"
  by (simp add: set_path_def)

lemma set_path_store_elem [simp]: "set_path a p (store_elem a i v h) = set_path a p h"
  by (simp add: set_path_def store_elem_def)

lemma arrays_store_elem_same [simp]: "arrays (store_elem a i v h) a = (arrays h a)[i := v]"
  by (simp add: store_elem_def)

lemma arrays_set_path [simp]: "arrays (set_path a p h) b = (if b = a then p else arrays h b)"
  by (simp add: set_path_def)

lemma fresh_set_path [simp]: "fresh (set_path a p h) = fresh h"
  by (simp add: set_path_def)

lemma set_path_set_path [simp]: "set_path a p (set_path a q h) = set_path a p h"
  by (simp add: set_path_def)

lemma length_narrow [simp]: "length (narrow i xs) = length xs"
  by (induction xs arbitrary: i) auto

lemma fieldPath_of_dotted:
  assumes lt: "index < length fs"
  shows "fieldPath_of fs index = dotted (map cleaner_Replace (take index fs @ [fs ! index]))"
proof -
  have t: "take index fs @ [fs ! index] = take (Suc index) fs"
    using lt by (simp add: take_Suc_conv_app_nth)
  have "map (\<lambda>i. jen_Dot (cleaner_Replace (fs ! i))) [1..<Suc index]
        = map jen_Dot (tl (map cleaner_Replace (take (Suc index) fs)))"
    by (rule nth_equalityI) (use lt in \<open>auto simp del: upt_Suc simp: nth_tl\<close>)
  moreover have "cleaner_Replace (fs ! 0) = map cleaner_Replace (take (Suc index) fs) ! 0"
    using lt by simp
  ultimately show ?thesis
    unfolding fieldPath_of_def dotted_def t by simp
qed

text \<open>From any index on, \<open>encapsulate\<close> builds what the recursion over the remaining
  segments builds, and leaves the array narrowed from that index on.\<close>

lemma encapsulate_from_index:
  "index \<le> length (arrays h a) \<Longrightarrow>
   encapsulate index callFn a h =
     (case guard_builder (take index (arrays h a)) (drop index (arrays h a))
             (\<lambda>p. callFn (set_path a p h) a) of
        Inl e \<Rightarrow> Inl e
      | Inr s \<Rightarrow>
          Inr (s, set_path a (take index (arrays h a) @ narrow index (drop index (arrays h a))) h))"
proof (induction index callFn a h rule: encapsulate.induct)
  case (1 index callFn a h)
  let ?fs = "arrays h a"
  let ?emit = "\<lambda>p. callFn (set_path a p h) a"
  show ?case
  proof (cases "length ?fs \<le> index")
    case True
    then show ?thesis
      using 1(4) by (subst encapsulate.simps) (simp split: sum.splits)
  next
    case False
    then have lt: "index < length ?fs" by simp
    have dr: "drop index ?fs = ?fs ! index # drop (Suc index) ?fs"
      using lt by (simp add: Cons_nth_drop_Suc)
    have tk: "\<And>v. take (Suc index) (?fs[index := v]) = take index ?fs @ [v]"
      using lt by (simp add: take_Suc_conv_app_nth)
    have tk': "take (Suc index) ?fs = take index ?fs @ [?fs ! index]"
      using lt by (simp add: take_Suc_conv_app_nth)
    have len: "length (take index ?fs) = index" using lt by simp
    show ?thesis
    proof (cases "HasPrefix (?fs ! index) ''*''")
      case star: True
      let ?v = "cleaner_Replace (?fs ! index)"
      have IH: "encapsulate (Suc index) callFn a (store_elem a index ?v h) =
         (case guard_builder (take index ?fs @ [?v]) (drop (Suc index) ?fs) ?emit of
            Inl e \<Rightarrow> Inl e
          | Inr s \<Rightarrow>
              Inr (s, set_path a (take index ?fs @ [?v] @ narrow (Suc index) (drop (Suc index) ?fs)) h))"
        using 1(1)[OF False refl refl star] lt by (simp add: tk cong: sum.case_cong)
      show ?thesis
        using lt IH
        by (subst encapsulate.simps)
           (simp add: False star dr fieldPath_of_dotted[OF lt] len narrow_segment_def
              null_guard_def Let_def split: sum.splits)
    next
      case nostar: False
      show ?thesis
      proof (cases "HasPrefix (?fs ! index) ''[]''")
        case arr: True
        let ?v = "cleaner_Replace (?fs ! index) @ ''['' @ loop_var index @ '']''"
        have IH: "encapsulate (Suc index) callFn a (store_elem a index ?v h) =
           (case guard_builder (take index ?fs @ [?v]) (drop (Suc index) ?fs) ?emit of
              Inl e \<Rightarrow> Inl e
            | Inr s \<Rightarrow>
                Inr (s, set_path a (take index ?fs @ [?v] @ narrow (Suc index) (drop (Suc index) ?fs)) h))"
          using 1(2)[OF False refl refl nostar arr] lt by (simp add: tk cong: sum.case_cong)
        show ?thesis
          using lt IH
          by (subst encapsulate.simps)
             (simp add: False nostar arr dr fieldPath_of_dotted[OF lt] len narrow_segment_def
                bounded_iteration_def Let_def split: sum.splits)
      next
        case noarr: False
        have IH: "encapsulate (Suc index) callFn a h =
           (case guard_builder (take index ?fs @ [?fs ! index]) (drop (Suc index) ?fs) ?emit of
              Inl e \<Rightarrow> Inl e
            | Inr s \<Rightarrow>
                Inr (s, set_path a
                          (take index ?fs @ [?fs ! index] @ narrow (Suc index) (drop (Suc index) ?fs)) h))"
          using 1(3)[OF False refl refl nostar noarr] lt by (simp add: tk' cong: sum.case_cong)
        show ?thesis
          using lt
          by (subst encapsulate.simps)
             (simp add: False nostar noarr IH dr len narrow_segment_def Let_def
                cong: sum.case_cong)
      qed
    qed
  qed
qed

lemma encapsulate_from_start:
  "encapsulate 0 callFn a h =
     (case guard_builder [] (arrays h a) (\<lambda>p. callFn (set_path a p h) a) of
        Inl e \<Rightarrow> Inl e
      | Inr s \<Rightarrow> Inr (s, set_path a (narrow 0 (arrays h a)) h))"
  using encapsulate_from_index [of 0 h a callFn] by (simp cong: sum.case_cong)

text \<open>The terminal function is called on the narrowed path, once all segments are
  consumed.\<close>

lemma guard_builder_emit_narrowed:
  "length current = i \<Longrightarrow>
   guard_builder current segs emit = Inl e \<Longrightarrow> emit (current @ narrow i segs) = Inl e"
proof (induction segs arbitrary: current i)
  case Nil
  then show ?case by simp
next
  case (Cons seg rest)
  show ?case
  proof (cases "HasPrefix seg ''*''")
    case True
    with Cons.prems have "guard_builder (current @ [cleaner_Replace seg]) rest emit = Inl e"
      by (simp split: sum.splits)
    from Cons.IH [OF _ this, of "Suc i"] Cons.prems(1) True show ?thesis
      by (simp add: narrow_segment_def)
  next
    case False
    note nostar = this
    show ?thesis
    proof (cases "HasPrefix seg ''[]''")
      case True
      with nostar Cons.prems
      have "guard_builder (current @ [cleaner_Replace seg @ ''['' @ loop_var i @ '']'']) rest emit
            = Inl e"
        by (simp split: sum.splits)
      from Cons.IH [OF _ this, of "Suc i"] Cons.prems(1) True nostar show ?thesis
        by (simp add: narrow_segment_def)
    next
      case False
      with nostar Cons.prems have "guard_builder (current @ [seg]) rest emit = Inl e"
        by simp
      from Cons.IH [OF _ this, of "Suc i"] Cons.prems(1) False nostar show ?thesis
        by (simp add: narrow_segment_def)
    qed
  qed
qed

text \<open>A property of statements that the terminal call has and that guards and loops
  on paths preserve holds of what the guard builder returns, and the terminal function has then
  been called on the narrowed path.\<close>

lemma guard_builder_cases:
  assumes "guard_builder current segs emit = Inr s"
    and "length current = i"
    and "\<And>body. emit (current @ narrow i segs) = Inr body \<Longrightarrow> Q body"
    and "\<And>xs body. Q body \<Longrightarrow> Q (null_guard (dotted xs) body)"
    and "\<And>v xs body. Q body \<Longrightarrow> Q (bounded_iteration v (dotted xs) body)"
  shows "Q s"
  using assms(1,2,3)
proof (induction segs arbitrary: current i s)
  case Nil
  then show ?case by simp
next
  case (Cons seg rest)
  show ?case
  proof (cases "HasPrefix seg ''*''")
    case True
    with Cons.prems(1) obtain body where
      b: "guard_builder (current @ [cleaner_Replace seg]) rest emit = Inr body"
      and s: "s = null_guard (dotted (map cleaner_Replace (current @ [seg]))) body"
      by (auto split: sum.splits)
    have "Q body"
      by (rule Cons.IH [OF b, of "Suc i"])
         (use Cons.prems(2,3) True in \<open>auto simp: narrow_segment_def\<close>)
    then show ?thesis unfolding s by (rule assms(4))
  next
    case False
    note nostar = this
    show ?thesis
    proof (cases "HasPrefix seg ''[]''")
      case True
      with nostar Cons.prems(1,2) obtain body where
        b: "guard_builder (current @ [cleaner_Replace seg @ ''['' @ loop_var i @ '']'']) rest emit
            = Inr body"
        and s: "s = bounded_iteration (loop_var i)
                      (dotted (map cleaner_Replace (current @ [seg]))) body"
        by (auto split: sum.splits)
      have "Q body"
        by (rule Cons.IH [OF b, of "Suc i"])
           (use Cons.prems(2,3) True nostar in \<open>auto simp: narrow_segment_def\<close>)
      then show ?thesis unfolding s by (rule assms(5))
    next
      case False
      with nostar Cons.prems(1) have b: "guard_builder (current @ [seg]) rest emit = Inr s"
        by simp
      show ?thesis
        by (rule Cons.IH [OF b, of "Suc i"])
           (use Cons.prems(2,3) False nostar in \<open>auto simp: narrow_segment_def\<close>)
    qed
  qed
qed

section \<open>Names, markers and the cleaner\<close>

lemma cleaner_Replace_other:
  "c \<noteq> CHR ''*'' \<Longrightarrow> c \<noteq> CHR ''['' \<Longrightarrow> cleaner_Replace (c # s) = c # cleaner_Replace s"
  by (cases s) auto

lemma cleaner_Replace_star [simp]: "cleaner_Replace (CHR ''*'' # s) = cleaner_Replace s"
  by (cases s) auto

lemma cleaner_Replace_identifier_append:
  "go_identifier s \<Longrightarrow> cleaner_Replace (s @ t) = s @ cleaner_Replace t"
  by (induction s) (auto simp: go_identifier_def cleaner_Replace_other)

lemma cleaner_Replace_identifier: "go_identifier s \<Longrightarrow> cleaner_Replace s = s"
  using cleaner_Replace_identifier_append [of s "[]"] by simp

lemma HasPrefix_identifier:
  "go_identifier s \<Longrightarrow> \<not> HasPrefix s ''*''" "go_identifier s \<Longrightarrow> \<not> HasPrefix s ''[]''"
  by (cases s; auto simp: go_identifier_def HasPrefix_def)+

lemma loop_var_1: "loop_var (Suc 0) = ''i1''"
  by (simp add: loop_var_def decimal.simps digit_def)

section \<open>The guard builder on tagged segments\<close>

lemma digit_char: "d < 10 \<Longrightarrow> digit d \<in> set ''0123456789''"
  unfolding digit_def by (rule nth_mem) simp

lemma decimal_digits: "set (decimal n) \<subseteq> set ''0123456789''"
proof (induction n rule: decimal.induct)
  case (1 n)
  show ?case
  proof (cases "n < 10")
    case True
    then show ?thesis
      using digit_char [of n] by (subst decimal.simps) simp
  next
    case False
    have "n mod 10 < 10" by simp
    from digit_char [OF this] 1 [OF False] False show ?thesis
      by (subst decimal.simps) simp
  qed
qed

lemma decimal_identifier: "go_identifier (decimal n)"
  using decimal_digits [of n] by (auto simp: go_identifier_def)

lemma cleaner_Replace_element_access:
  assumes "go_identifier name"
  shows "cleaner_Replace (element_access name k) = element_access name k"
proof -
  have i: "go_identifier (CHR ''i'' # decimal k)"
    using decimal_identifier [of k] by (simp add: go_identifier_def)
  have "cleaner_Replace (CHR ''['' # (CHR ''i'' # decimal k) @ '']'')
        = CHR ''['' # cleaner_Replace ((CHR ''i'' # decimal k) @ '']'')"
    by simp
  also have "\<dots> = CHR ''['' # (CHR ''i'' # decimal k) @ '']''"
    by (simp only: cleaner_Replace_identifier_append [OF i]) simp
  finally show ?thesis
    using cleaner_Replace_identifier_append [OF assms, of "''[i'' @ decimal k @ '']''"]
    by (simp add: element_access_def)
qed

lemma written_narrowed:
  assumes "go_identifier name"
  shows "narrow_segment k (written (Plain, name)) = name"
    and "narrow_segment k (written (Optional, name)) = name"
    and "narrow_segment k (written (Repeated, name)) = element_access name k"
  using assms HasPrefix_identifier [of name]
  by (simp_all add: narrow_segment_def HasPrefix_def cleaner_Replace_identifier
      element_access_def loop_var_def)

lemma narrow_written:
  "\<forall>seg\<in>set segs. go_identifier (snd seg) \<Longrightarrow> narrow k (map written segs) = scoped k segs"
proof (induction segs arbitrary: k)
  case Nil
  then show ?case by simp
next
  case (Cons seg rest)
  obtain t name where s: "seg = (t, name)" by (cases seg)
  with Cons.prems have "go_identifier name" by simp
  from written_narrowed [OF this, of k] Cons.IH [of "Suc k"] Cons.prems show ?case
    unfolding s by (cases t) simp_all
qed

text \<open>On the written form of tagged segments, the recursion on the strings is the
  recursion of the specification.\<close>

lemma guard_builder_consume_segments:
  "\<forall>seg\<in>set segs. go_identifier (snd seg) \<Longrightarrow> \<forall>c\<in>set current. cleaner_Replace c = c \<Longrightarrow>
   guard_builder current (map written segs) emit = consume_segments current segs emit"
proof (induction segs arbitrary: current)
  case Nil
  then show ?case by simp
next
  case (Cons seg rest)
  obtain t name where s: "seg = (t, name)" by (cases seg)
  with Cons.prems have i: "go_identifier name" and r: "\<forall>seg\<in>set rest. go_identifier (snd seg)"
    by simp_all
  have c: "cleaner_Replace name = name"
    using i by (rule cleaner_Replace_identifier)
  have m: "map cleaner_Replace current = current"
    using Cons.prems(2) by (simp add: map_idI)
  show ?case
  proof (cases t)
    case Plain
    have "\<forall>c\<in>set (current @ [name]). cleaner_Replace c = c"
      using Cons.prems(2) c by simp
    from Cons.IH [OF r this] show ?thesis
      unfolding s Plain using HasPrefix_identifier [OF i] by simp
  next
    case Optional
    have "\<forall>c\<in>set (current @ [name]). cleaner_Replace c = c"
      using Cons.prems(2) c by simp
    from Cons.IH [OF r this] show ?thesis
      unfolding s Optional by (simp add: HasPrefix_def c m cong: sum.case_cong)
  next
    case Repeated
    have "\<forall>c\<in>set (current @ [element_access name (length current)]). cleaner_Replace c = c"
      using Cons.prems(2) cleaner_Replace_element_access [OF i] by simp
    from Cons.IH [OF r this] show ?thesis
      unfolding s Repeated
      by (simp add: HasPrefix_def c m element_access_def loop_var_def cong: sum.case_cong)
  qed
qed

text \<open>Claim C1. The guard builder consumes the segments of a value field path from left
  to right. For a path given as tagged segments (field names, which have none of the
  characters of the markers, each tagged plain, optional or repeated, and written in
  the array at \<open>a\<close> with the prefix of its tag), \<open>encapsulate\<close>, started at index 0,
  returns what the recursion \<open>consume_segments\<close> returns: for an optional segment the
  null guard on the current path, around the rest, for which the segment has lost its
  marker; for a repeated segment the loop from 0 while the index is below the length
  of the current path, around the rest, for which the segment is its indexed element
  access; for a plain segment no guard and no loop; and with all segments consumed,
  the terminal call-emission function called on the current path, which the array at
  \<open>a\<close> then holds.\<close>

theorem encapsulate_consumes_segments:
  assumes "\<forall>seg\<in>set segs. go_identifier (snd seg)"
    and "arrays h a = map written segs"
  shows "encapsulate 0 callFn a h =
     (case consume_segments [] segs (\<lambda>current. callFn (set_path a current h) a) of
        Inl e \<Rightarrow> Inl e
      | Inr s \<Rightarrow> Inr (s, set_path a (scoped 0 segs) h))"
  unfolding encapsulate_from_start assms(2)
  using guard_builder_consume_segments [OF assms(1), of "[]"] narrow_written [OF assms(1), of 0]
  by (simp cong: sum.case_cong)

theorem encapsulate_consumes_segments_witness:
  "go_identifier ''mg'' \<and> go_identifier ''Spec'' \<and> go_identifier ''Items'' \<and>
   go_identifier ''Name'' \<and>
   arrays nested_heap 0 = map written nested_segments \<and>
   encapsulate 0 show_path 0 nested_heap =
     Inr ([jen_If [Stmt [jen_Id ''mg'', jen_Dot ''Spec'', jen_Op ''!='', jen_Nil]],
           jen_Block
             [Stmt [jen_For [Stmt [jen_Id ''i2'', jen_Op '':='', jen_LitInt 0],
                             Stmt [jen_Id ''i2'', jen_Op ''<'',
                                   jen_Len (Stmt [jen_Id ''mg'', jen_Dot ''Spec'',
                                                  jen_Dot ''Items''])],
                             Stmt [jen_Id ''i2'', jen_Op ''++'']],
                    jen_Block [Stmt [jen_LitStr ''mg.Spec.Items[i2].Name'']]]]],
          set_path 0 [''mg'', ''Spec'', ''Items[i2]'', ''Name''] nested_heap)"
proof -
  have i: "\<forall>seg\<in>set nested_segments. go_identifier (snd seg)"
    by (simp add: nested_segments_def go_identifier_def)
  have p: "arrays nested_heap 0 = map written nested_segments"
    by (simp add: nested_heap_def nested_segments_def)
  have d: "decimal (Suc (Suc 0)) = ''2''"
    by (simp add: decimal.simps digit_def)
  from encapsulate_consumes_segments [OF i p, of show_path] p show ?thesis
    by (simp add: nested_segments_def go_identifier_def show_path_def element_access_def d
        null_guard_def bounded_iteration_def dotted_def)
qed

section \<open>The reference processor\<close>

text \<open>Claim C9. A field whose comment has no reference-type marker (the marker is
  missing from the parsed markers, or has no value) is not a reference field:
  \<open>Process\<close> returns the nil error, appends no Reference and leaves the processor and
  the store as they were.\<close>

theorem Process_without_type_marker:
  assumes "ParseMarkers comment ReferenceTypeMarker \<in> {None, Some []}"
  shows "Process ParseMarkers rp h named f tag comment parentFields = Inr (None, rp, h)"
  using assms by (auto simp: Process_def)

theorem Process_without_type_marker_witness:
  "example_markers [] ReferenceTypeMarker \<in> {None, Some []} \<and>
   Process example_markers example_processor example_heap (Named ''Bucket'') example_field
     [] [] [''Spec''] = Inr (None, example_processor, example_heap)"
proof -
  have m: "example_markers [] ReferenceTypeMarker \<in> {None, Some []}"
    by (simp add: example_markers_def example_comment_def)
  show ?thesis
    using m Process_without_type_marker
      [where ParseMarkers = example_markers and comment = "[]", OF m]
    by blast
qed

text \<open>The three markers whose first value \<open>Process\<close> reads without a check: none of them
  is present with an empty list of values. (The parser of the repository never stores
  an empty list.)\<close>

lemma Process_reference:
  assumes "ParseMarkers comment ReferenceTypeMarker = Some (t # ts)"
    and "ParseMarkers comment ReferenceExtractorMarker \<noteq> Some []"
    and "ParseMarkers comment ReferenceReferenceFieldNameMarker \<noteq> Some []"
    and "ParseMarkers comment ReferenceSelectorFieldNameMarker \<noteq> Some []"
  shows "Process ParseMarkers rp h named f tag comment parentFields =
    Inr (None,
         rp\<lparr>refs := refs rp @
           [\<lparr>RemoteType = getTypeCodeFromPath t [],
             Extractor =
               (case ParseMarkers comment ReferenceExtractorMarker of
                  None \<Rightarrow> DefaultExtractor rp | Some vs \<Rightarrow> getFuncCodeFromPath (hd vs)),
             RemoteListType = getTypeCodeFromPath t [''List''],
             GoValueFieldPath = fresh h,
             GoRefFieldName =
               (case ParseMarkers comment ReferenceReferenceFieldNameMarker of
                  None \<Rightarrow> Name f @ (case Type f of Slice e \<Rightarrow> ''Refs'' | _ \<Rightarrow> ''Ref'')
                | Some vs \<Rightarrow> hd vs),
             GoSelectorFieldName =
               (case ParseMarkers comment ReferenceSelectorFieldNameMarker of
                  None \<Rightarrow> Name f @ ''Selector'' | Some vs \<Rightarrow> hd vs),
             IsSlice = (case Type f of Slice e \<Rightarrow> True | _ \<Rightarrow> False),
             IsPointer =
               (case Type f of Pointer e \<Rightarrow> True | Slice (Pointer e) \<Rightarrow> True | _ \<Rightarrow> False),
             SourceType =
               (case Type f of
                  Pointer e \<Rightarrow> type_String e
                | Slice (Pointer e) \<Rightarrow> type_String e
                | _ \<Rightarrow> []),
             SourceName = Name f\<rparr>]\<rparr>,
         \<lparr>arrays = (arrays h)(fresh h := Receiver rp # parentFields @ [Name f]),
          fresh = Suc (fresh h)\<rparr>)"
  using assms
  by (auto simp: Process_def first_value_def alloc_def Let_def
      split: option.splits list.splits gotype.splits)


text \<open>Claim C5. The flags \<open>IsPointer\<close> and \<open>IsSlice\<close> and the \<open>SourceType\<close> of the
  Reference that \<open>Process\<close> appends are a function of the declared type of the field
  alone, whatever the markers say: a pointer gives \<open>IsPointer\<close> with the pointee as
  source type; a slice gives \<open>IsSlice\<close>; a slice of pointers gives both, with the
  pointee of the element as source type; a pointer to a slice is not recognised as a
  list (it is a pointer whose pointee is the slice type).\<close>

theorem Process_shape_from_type:
  assumes "ParseMarkers comment ReferenceTypeMarker = Some (t # ts)"
    and "ParseMarkers comment ReferenceExtractorMarker \<noteq> Some []"
    and "ParseMarkers comment ReferenceReferenceFieldNameMarker \<noteq> Some []"
    and "ParseMarkers comment ReferenceSelectorFieldNameMarker \<noteq> Some []"
  shows "\<exists>r h'. Process ParseMarkers rp h named f tag comment parentFields =
           Inr (None, rp\<lparr>refs := refs rp @ [r]\<rparr>, h') \<and>
         (IsPointer r, IsSlice r, SourceType r) =
           (case Type f of
              Pointer e \<Rightarrow> (True, False, type_String e)
            | Slice (Pointer e) \<Rightarrow> (True, True, type_String e)
            | Slice e \<Rightarrow> (False, True, [])
            | _ \<Rightarrow> (False, False, []))"
  unfolding Process_reference [where ParseMarkers = ParseMarkers and comment = comment, OF assms]
  by (intro exI conjI, rule refl) (simp split: gotype.splits)

theorem Process_shape_from_type_witness:
  "example_markers example_comment ReferenceTypeMarker = Some (''Foo'' # []) \<and>
   example_markers example_comment ReferenceExtractorMarker \<noteq> Some [] \<and>
   example_markers example_comment ReferenceReferenceFieldNameMarker \<noteq> Some [] \<and>
   example_markers example_comment ReferenceSelectorFieldNameMarker \<noteq> Some [] \<and>
   (\<exists>r h'. Process example_markers example_processor example_heap (Named ''Bucket'')
              \<lparr>Name = ''Names'', Type = Pointer (Slice (Basic ''string''))\<rparr> [] example_comment
              [''Spec''] =
            Inr (None, example_processor\<lparr>refs := refs example_processor @ [r]\<rparr>, h') \<and>
          (IsPointer r, IsSlice r, SourceType r) = (True, False, ''[]string''))"
proof -
  have m: "example_markers example_comment ReferenceTypeMarker = Some (''Foo'' # [])"
    "example_markers example_comment ReferenceExtractorMarker \<noteq> Some []"
    "example_markers example_comment ReferenceReferenceFieldNameMarker \<noteq> Some []"
    "example_markers example_comment ReferenceSelectorFieldNameMarker \<noteq> Some []"
    by (simp_all add: example_markers_def ReferenceTypeMarker_def ReferenceExtractorMarker_def
        ReferenceReferenceFieldNameMarker_def ReferenceSelectorFieldNameMarker_def)
  show ?thesis
    using m Process_shape_from_type
      [where ParseMarkers = example_markers and comment = example_comment
         and f = "\<lparr>Name = ''Names'', Type = Pointer (Slice (Basic ''string''))\<rparr>"
         and rp = example_processor and h = example_heap and named = "Named ''Bucket''"
         and tag = "[]" and parentFields = "[''Spec'']", OF m]
    by simp
qed

text \<open>Claim C7. The name of the sibling reference field is the name of the field with
  \<open>Ref\<close>, or with \<open>Refs\<close> when the field is a slice, and the name of the sibling
  selector field is the name of the field with \<open>Selector\<close>; when the marker that
  overrides one of them is present, its (first) value is the name instead.\<close>

theorem Process_sibling_field_names:
  assumes "ParseMarkers comment ReferenceTypeMarker = Some (t # ts)"
    and "ParseMarkers comment ReferenceExtractorMarker \<noteq> Some []"
    and "ParseMarkers comment ReferenceReferenceFieldNameMarker \<noteq> Some []"
    and "ParseMarkers comment ReferenceSelectorFieldNameMarker \<noteq> Some []"
  shows "\<exists>r h'. Process ParseMarkers rp h named f tag comment parentFields =
           Inr (None, rp\<lparr>refs := refs rp @ [r]\<rparr>, h') \<and>
         GoRefFieldName r =
           (case ParseMarkers comment ReferenceReferenceFieldNameMarker of
              Some vs \<Rightarrow> hd vs
            | None \<Rightarrow> Name f @ (case Type f of Slice e \<Rightarrow> ''Refs'' | _ \<Rightarrow> ''Ref'')) \<and>
         GoSelectorFieldName r =
           (case ParseMarkers comment ReferenceSelectorFieldNameMarker of
              Some vs \<Rightarrow> hd vs
            | None \<Rightarrow> Name f @ ''Selector'')"
  unfolding Process_reference [where ParseMarkers = ParseMarkers and comment = comment, OF assms]
  by (intro exI conjI, rule refl) (simp_all split: option.splits)

theorem Process_sibling_field_names_witness:
  "example_markers example_comment ReferenceTypeMarker = Some (''Foo'' # []) \<and>
   example_markers example_comment ReferenceExtractorMarker \<noteq> Some [] \<and>
   example_markers example_comment ReferenceReferenceFieldNameMarker \<noteq> Some [] \<and>
   example_markers example_comment ReferenceSelectorFieldNameMarker \<noteq> Some [] \<and>
   (\<exists>r h'. Process example_markers example_processor example_heap (Named ''Bucket'')
              example_field [] example_comment [''Spec''] =
            Inr (None, example_processor\<lparr>refs := refs example_processor @ [r]\<rparr>, h') \<and>
          GoRefFieldName r = ''FooRef'' \<and> GoSelectorFieldName r = ''NameSelector'')"
proof -
  have m: "example_markers example_comment ReferenceTypeMarker = Some (''Foo'' # [])"
    "example_markers example_comment ReferenceExtractorMarker \<noteq> Some []"
    "example_markers example_comment ReferenceReferenceFieldNameMarker \<noteq> Some []"
    "example_markers example_comment ReferenceSelectorFieldNameMarker \<noteq> Some []"
    by (simp_all add: example_markers_def ReferenceTypeMarker_def ReferenceExtractorMarker_def
        ReferenceReferenceFieldNameMarker_def ReferenceSelectorFieldNameMarker_def)
  have v: "example_markers example_comment ReferenceReferenceFieldNameMarker = Some [''FooRef'']"
    "example_markers example_comment ReferenceSelectorFieldNameMarker = None"
    by (simp_all add: example_markers_def ReferenceTypeMarker_def ReferenceExtractorMarker_def
        ReferenceReferenceFieldNameMarker_def ReferenceSelectorFieldNameMarker_def)
  show ?thesis
    using m Process_sibling_field_names
      [where ParseMarkers = example_markers and comment = example_comment
         and f = example_field and rp = example_processor and h = example_heap
         and named = "Named ''Bucket''" and tag = "[]" and parentFields = "[''Spec'']", OF m]
    by (simp add: v example_field_def)
qed

text \<open>Claim C10. \<open>Process\<close> never returns an error that is not nil, whatever the
  enclosing type, the field, the tag, the comment and the ancestor path; and it does
  return, with the nil error, whenever the marker parser gives no marker an empty list
  of values (an empty list under one of the three markers read by \<open>values[0]\<close> is an
  index out of range).\<close>

theorem Process_returns_nil_error:
  "(\<forall>e st. Process ParseMarkers rp h named f tag comment parentFields \<noteq> Inr (Some e, st)) \<and>
   (ParseMarkers comment ReferenceExtractorMarker \<noteq> Some [] \<and>
    ParseMarkers comment ReferenceReferenceFieldNameMarker \<noteq> Some [] \<and>
    ParseMarkers comment ReferenceSelectorFieldNameMarker \<noteq> Some [] \<longrightarrow>
    (\<exists>rp' h'. Process ParseMarkers rp h named f tag comment parentFields = Inr (None, rp', h')))"
proof (intro conjI allI impI)
  fix e st
  show "Process ParseMarkers rp h named f tag comment parentFields \<noteq> Inr (Some e, st)"
    by (auto simp: Process_def Let_def split: sum.splits option.splits prod.splits)
next
  assume a: "ParseMarkers comment ReferenceExtractorMarker \<noteq> Some [] \<and>
    ParseMarkers comment ReferenceReferenceFieldNameMarker \<noteq> Some [] \<and>
    ParseMarkers comment ReferenceSelectorFieldNameMarker \<noteq> Some []"
  show "\<exists>rp' h'. Process ParseMarkers rp h named f tag comment parentFields = Inr (None, rp', h')"
  proof (cases "ParseMarkers comment ReferenceTypeMarker")
    case None
    then show ?thesis by (auto simp: Process_def)
  next
    case (Some vs)
    show ?thesis
    proof (cases vs)
      case Nil
      with Some show ?thesis by (auto simp: Process_def)
    next
      case (Cons t ts)
      with Some a show ?thesis
        by (auto simp: Process_reference)
    qed
  qed
qed

theorem Process_returns_nil_error_witness:
  "(\<forall>e st. Process example_markers example_processor example_heap (Named ''Bucket'')
              example_field [] example_comment [''Spec''] \<noteq> Inr (Some e, st)) \<and>
   example_markers example_comment ReferenceExtractorMarker \<noteq> Some [] \<and>
   example_markers example_comment ReferenceReferenceFieldNameMarker \<noteq> Some [] \<and>
   example_markers example_comment ReferenceSelectorFieldNameMarker \<noteq> Some [] \<and>
   (\<exists>rp' h'. Process example_markers example_processor example_heap (Named ''Bucket'')
              example_field [] example_comment [''Spec''] = Inr (None, rp', h'))"
proof -
  have m: "example_markers example_comment ReferenceExtractorMarker \<noteq> Some []"
    "example_markers example_comment ReferenceReferenceFieldNameMarker \<noteq> Some []"
    "example_markers example_comment ReferenceSelectorFieldNameMarker \<noteq> Some []"
    by (simp_all add: example_markers_def ReferenceTypeMarker_def ReferenceExtractorMarker_def
        ReferenceReferenceFieldNameMarker_def ReferenceSelectorFieldNameMarker_def)
  show ?thesis
    using m Process_returns_nil_error
      [where ParseMarkers = example_markers and comment = example_comment
         and f = example_field and rp = example_processor and h = example_heap
         and named = "Named ''Bucket''" and tag = "[]" and parentFields = "[''Spec'']"]
    by blast
qed

section \<open>The terminal calls\<close>

lemma tests_err_If [simp]:
  "tests_err (jen_If conds) =
     (conds \<noteq> [] \<and> last conds = Stmt [jen_Err, jen_Op ''!='', jen_Nil])"
  by (simp add: tests_err_def)

lemma tests_err_other [simp]: "\<forall>xs. c \<noteq> jen_If xs \<Longrightarrow> \<not> tests_err c"
  by (cases c) (simp_all add: tests_err_def)

lemma is_return_Return [simp]: "is_return (jen_Block [Stmt [jen_Return results]])"
  by (simp add: is_return_def item_def)

lemma is_failure_check_failure_check [simp]: "is_failure_check (failure_check context)"
  by (simp add: is_failure_check_def check_context_def failure_check_def item_def)

lemma failure_check_not_lookup [simp]: "\<not> is_lookup_call (failure_check context)"
  by (simp add: is_lookup_call_def failure_check_def)

lemma failure_check_not_tests [simp]: "\<not> tests_err (failure_check context)"
  by (simp add: failure_check_def)

lemma failure_check_inject [simp]: "failure_check x = failure_check y \<longleftrightarrow> x = y"
  by (simp add: failure_check_def)

text \<open>Path expressions are made of names, selectors and operators only.\<close>

lemma path_tokens:
  assumes "set cs \<subseteq> range jen_Id \<union> range jen_Dot \<union> range jen_Op"
  shows "follows_check cs" and "list_all all_checked cs" and "var_pairs x cs = 0"
    and "sum_list (map (var_decls x) cs) = 0"
proof -
  show "follows_check cs"
    using assms by (induction cs) (auto simp: is_lookup_call_def tests_err_def)
  show "list_all all_checked cs"
    using assms by (induction cs) auto
  show "var_pairs x cs = 0"
    using assms by (induction x cs rule: var_pairs.induct) auto
  show "sum_list (map (var_decls x) cs) = 0"
    using assms by (induction cs) auto
qed

lemma prefixPath_of_tokens:
  "set (prefixPath_of fs) \<subseteq> range jen_Id \<union> range jen_Dot \<union> range jen_Op"
  by (auto simp: prefixPath_of_def)

lemma follows_check_path [simp]:
  "set cs \<subseteq> range jen_Id \<union> range jen_Dot \<union> range jen_Op \<Longrightarrow>
   follows_check (prefixPath_of fs @ cs)"
  using path_tokens(1) [of "prefixPath_of fs @ cs"] prefixPath_of_tokens [of fs] by simp

lemma all_checked_prefixPath [simp]: "list_all all_checked (prefixPath_of fs)"
  using path_tokens(2) [of "prefixPath_of fs"] prefixPath_of_tokens [of fs] by simp

lemma var_pairs_path [simp]:
  "set cs \<subseteq> range jen_Id \<union> range jen_Dot \<union> range jen_Op \<Longrightarrow>
   var_pairs x (prefixPath_of fs @ cs) = 0"
  using path_tokens(3) [of "prefixPath_of fs @ cs" x] prefixPath_of_tokens [of fs] by simp

lemma var_decls_prefixPath [simp]: "c \<in> set (prefixPath_of fs) \<Longrightarrow> var_decls x c = 0"
  by (auto simp: prefixPath_of_def)

text \<open>The statements of a terminal call: the lookup, a line break, the failure check
  with the joined path as context, and the assignments; eight statements.\<close>

lemma resolution_call_shape:
  assumes "arrays h flds \<noteq> []"
  shows "\<exists>lookup rest. resolution_call ref pkg h flds =
           Inr (lookup # Stmt [jen_Line] #
                failure_check (Join (arrays h (GoValueFieldPath ref)) ''.'') # rest) \<and>
         is_lookup_call lookup \<and> length rest = 5"
  using assms
  by (cases "IsSlice ref")
     (simp_all add: resolution_call_def singleResolutionCall_def multiResolutionCall_def
        Let_def is_lookup_call_def failure_check_def return_wrapped_def)

lemma resolution_call_fails:
  "arrays h flds = [] \<Longrightarrow> resolution_call ref pkg h flds = Inl IndexOutOfRange"
  by (simp add: resolution_call_def singleResolutionCall_def multiResolutionCall_def)

lemma v_name [simp]: "''v'' @ s \<noteq> ''rsp''" "''v'' @ s \<noteq> ''mrsp''"
  by simp_all


lemma path_not_lookup [simp]: "\<not> is_lookup_call (Stmt (prefixPath_of fs @ cs))"
  by (simp add: is_lookup_call_def prefixPath_of_def)

lemma is_lookup_call_Resolve [simp]:
  "is_lookup_call (Stmt [jen_List [Stmt [jen_Id ''rsp''], Stmt [jen_Err]], jen_Op ''='',
                         jen_Id ''r'', jen_Dot ''Resolve'', jen_Call args])"
  "is_lookup_call (Stmt [jen_List [Stmt [jen_Id ''mrsp''], Stmt [jen_Err]], jen_Op ''='',
                         jen_Id ''r'', jen_Dot ''ResolveMultiple'', jen_Call args])"
  by (simp_all add: is_lookup_call_def)

lemma not_lookup_first [simp]:
  "\<forall>xs. c \<noteq> jen_List xs \<Longrightarrow> \<not> is_lookup_call (Stmt (c # cs))"
  by (cases c) (simp_all add: is_lookup_call_def)

lemma not_lookup_token [simp]: "\<forall>xs. c \<noteq> Stmt xs \<Longrightarrow> \<not> is_lookup_call c"
  by (cases c) (simp_all add: is_lookup_call_def)

lemma failure_check_fold:
  "Stmt [jen_If [Stmt [jen_Err, jen_Op ''!='', jen_Nil]], jen_Block [Stmt (return_wrapped m)]]
   = failure_check m"
  by (simp add: failure_check_def return_wrapped_def)


lemma return_wrapped_checked [simp]:
  "follows_check (return_wrapped m)" "list_all all_checked (return_wrapped m)"
  "var_pairs x (return_wrapped m) = 0" "c \<in> set (return_wrapped m) \<Longrightarrow> var_decls x c = 0"
  by (simp_all add: return_wrapped_def)

lemma return_wrapped_not_lookup [simp]: "\<not> is_lookup_call (Stmt (return_wrapped m))"
  by (simp add: return_wrapped_def)

lemma is_return_wrapped [simp]: "is_return (jen_Block [Stmt (return_wrapped m)])"
  by (simp add: return_wrapped_def)

lemma failure_check_checked [simp]: "all_checked (failure_check m)"
  by (simp add: failure_check_def)

lemma failure_check_decls [simp]: "var_decls x (failure_check m) = 0"
  by (simp add: failure_check_def)

lemma resolution_call_checked:
  assumes "resolution_call ref pkg h flds = Inr b"
  shows "all_checked (Stmt b) \<and> all_checked (Stmt (b @ [jen_Line]))"
proof -
  have ne: "arrays h flds \<noteq> []"
    using assms resolution_call_fails [of h flds ref pkg] by auto
  show ?thesis
  proof (cases "IsSlice ref")
    case True
    with assms ne have b: "multiResolutionCall ref pkg h flds = Inr b"
      by (simp add: resolution_call_def)
    show ?thesis
      using ne b [symmetric]
      by (cases "IsPointer ref")
         (simp_all add: multiResolutionCall_def Let_def failure_check_fold)
  next
    case False
    with assms ne have b: "singleResolutionCall ref pkg h flds = Inr b"
      by (simp add: resolution_call_def)
    show ?thesis
      using ne b [symmetric]
      by (cases "IsPointer ref")
         (simp_all add: singleResolutionCall_def Let_def failure_check_fold)
  qed
qed

lemma resolution_call_decls:
  assumes "resolution_call ref pkg h flds = Inr b" and "x = ''rsp'' \<or> x = ''mrsp''"
  shows "var_pairs x (b @ [jen_Line]) = 0 \<and> sum_list (map (var_decls x) b) = 0"
proof -
  have ne: "arrays h flds \<noteq> []"
    using assms resolution_call_fails [of h flds ref pkg] by auto
  show ?thesis
  proof (cases "IsSlice ref")
    case True
    with assms ne have b: "multiResolutionCall ref pkg h flds = Inr b"
      by (simp add: resolution_call_def)
    show ?thesis
      using ne assms(2) b [symmetric]
      by (cases "IsPointer ref")
         (auto simp: multiResolutionCall_def Let_def failure_check_fold)
  next
    case False
    with assms ne have b: "singleResolutionCall ref pkg h flds = Inr b"
      by (simp add: resolution_call_def)
    show ?thesis
      using ne assms(2) b [symmetric]
      by (cases "IsPointer ref")
         (auto simp: singleResolutionCall_def Let_def failure_check_fold)
  qed
qed

section \<open>The block of one reference\<close>

lemma narrow_Nil_iff [simp]: "narrow i xs = [] \<longleftrightarrow> xs = []"
  by (cases xs) simp_all

lemma lookup_length: "is_lookup_call (Stmt xs) \<Longrightarrow> length xs = 5"
  by (simp add: is_lookup_call_def)

lemma var_pairs_append_0: "var_pairs x (xs @ ys) = 0 \<Longrightarrow> var_pairs x xs = 0"
  by (induction x xs rule: var_pairs.induct) (auto split: if_splits)

lemma narrow_path_arrays [simp]:
  "arrays (narrow_path ref h) a =
     (if a = GoValueFieldPath ref then narrow 0 (arrays h a) else arrays h a)"
  by (simp add: narrow_path_def)

lemma narrow_path_fresh [simp]: "fresh (narrow_path ref h) = fresh h"
  by (simp add: narrow_path_def)

text \<open>The block of a reference whose path is not empty is emitted, and the path is
  left narrowed.\<close>

lemma encapsulate_call:
  assumes "arrays h (GoValueFieldPath ref) \<noteq> []"
  shows "\<exists>s. encapsulate 0 (resolution_call ref pkg) (GoValueFieldPath ref) h =
              Inr (s, narrow_path ref h)"
proof -
  let ?a = "GoValueFieldPath ref"
  let ?emit = "\<lambda>p. resolution_call ref pkg (set_path ?a p h) ?a"
  have "\<exists>b. ?emit ([] @ narrow 0 (arrays h ?a)) = Inr b"
    using resolution_call_shape [of "set_path ?a (narrow 0 (arrays h ?a)) h" ?a ref pkg] assms
    by auto
  then have "\<And>e. guard_builder [] (arrays h ?a) ?emit \<noteq> Inl e"
    using guard_builder_emit_narrowed [of "[]" 0 "arrays h ?a" ?emit] by fastforce
  then obtain s where "guard_builder [] (arrays h ?a) ?emit = Inr s"
    by (cases "guard_builder [] (arrays h ?a) ?emit") auto
  then show ?thesis
    by (simp add: encapsulate_from_start narrow_path_def)
qed

text \<open>What holds of the terminal call on the narrowed path, and is kept by guards and
  loops, holds of the block.\<close>

lemma encapsulate_call_cases:
  assumes "encapsulate 0 (resolution_call ref pkg) (GoValueFieldPath ref) h = Inr (s, h')"
    and "\<And>b. resolution_call ref pkg (narrow_path ref h) (GoValueFieldPath ref) = Inr b \<Longrightarrow> Q b"
    and "\<And>xs body. Q body \<Longrightarrow> Q (null_guard (dotted xs) body)"
    and "\<And>v xs body. Q body \<Longrightarrow> Q (bounded_iteration v (dotted xs) body)"
  shows "Q s"
proof -
  let ?a = "GoValueFieldPath ref"
  let ?emit = "\<lambda>p. resolution_call ref pkg (set_path ?a p h) ?a"
  have g: "guard_builder [] (arrays h ?a) ?emit = Inr s"
    using assms(1) by (auto simp: encapsulate_from_start split: sum.splits)
  show ?thesis
    by (rule guard_builder_cases [OF g, of 0 Q])
       (use assms(2,3,4) in \<open>auto simp: narrow_path_def\<close>)
qed

lemma block_checked:
  assumes "encapsulate 0 (resolution_call ref pkg) (GoValueFieldPath ref) h = Inr (s, h')"
  shows "all_checked (Stmt s) \<and> all_checked (Stmt (s @ [jen_Line])) \<and>
         \<not> is_lookup_call (Stmt s) \<and> \<not> is_lookup_call (Stmt (s @ [jen_Line]))"
proof (rule encapsulate_call_cases [OF assms])
  fix b assume b: "resolution_call ref pkg (narrow_path ref h) (GoValueFieldPath ref) = Inr b"
  have "arrays (narrow_path ref h) (GoValueFieldPath ref) \<noteq> []"
    using b resolution_call_fails [of "narrow_path ref h" "GoValueFieldPath ref" ref pkg]
    by auto
  from resolution_call_shape [OF this, of ref pkg] b
  have "\<not> is_lookup_call (Stmt b) \<and> \<not> is_lookup_call (Stmt (b @ [jen_Line]))"
    by (auto dest: lookup_length)
  with resolution_call_checked [OF b]
  show "all_checked (Stmt b) \<and> all_checked (Stmt (b @ [jen_Line])) \<and>
        \<not> is_lookup_call (Stmt b) \<and> \<not> is_lookup_call (Stmt (b @ [jen_Line]))"
    by simp
qed (simp_all add: null_guard_def bounded_iteration_def dotted_def)

lemma block_decls:
  assumes "encapsulate 0 (resolution_call ref pkg) (GoValueFieldPath ref) h = Inr (s, h')"
    and "x = ''rsp'' \<or> x = ''mrsp''"
  shows "var_pairs x s = 0 \<and> var_pairs x (s @ [jen_Line]) = 0 \<and>
         sum_list (map (var_decls x) s) = 0"
proof (rule encapsulate_call_cases [OF assms(1)])
  fix b assume "resolution_call ref pkg (narrow_path ref h) (GoValueFieldPath ref) = Inr b"
  from resolution_call_decls [OF this assms(2)]
  show "var_pairs x b = 0 \<and> var_pairs x (b @ [jen_Line]) = 0 \<and>
        sum_list (map (var_decls x) b) = 0"
    by (auto dest: var_pairs_append_0)
qed (simp_all add: null_guard_def bounded_iteration_def)

lemma innermost_guards [simp]:
  "innermost (null_guard p body) = innermost body"
  "innermost (bounded_iteration v p body) = innermost body"
  by (subst innermost.simps, simp add: guard_body_def null_guard_def bounded_iteration_def)+

lemma block_innermost:
  assumes "encapsulate 0 (resolution_call ref pkg) (GoValueFieldPath ref) h = Inr (s, h')"
  shows "\<exists>lookup rest.
           innermost s = lookup # Stmt [jen_Line] #
             failure_check (Join (narrow 0 (arrays h (GoValueFieldPath ref))) ''.'') # rest \<and>
           is_lookup_call lookup"
proof (rule encapsulate_call_cases [OF assms])
  fix b assume b: "resolution_call ref pkg (narrow_path ref h) (GoValueFieldPath ref) = Inr b"
  have "arrays (narrow_path ref h) (GoValueFieldPath ref) \<noteq> []"
    using b resolution_call_fails [of "narrow_path ref h" "GoValueFieldPath ref" ref pkg]
    by auto
  from resolution_call_shape [OF this, of ref pkg] b
  obtain lookup rest where
    s: "b = lookup # Stmt [jen_Line] #
          failure_check (Join (narrow 0 (arrays h (GoValueFieldPath ref))) ''.'') # rest"
    and l: "is_lookup_call lookup"
    by auto
  have "innermost b = b"
    by (subst innermost.simps) (simp add: s guard_body_def)
  with s l show "\<exists>lookup rest.
           innermost b = lookup # Stmt [jen_Line] #
             failure_check (Join (narrow 0 (arrays h (GoValueFieldPath ref))) ''.'') # rest \<and>
           is_lookup_call lookup"
    by auto
qed simp_all

section \<open>The loop over the references and the emitted method\<close>

lemma resolverCalls_loop_Cons:
  "resolverCalls_loop pkg (ref # rest) m sg h =
     (case encapsulate 0 (resolution_call ref pkg) (GoValueFieldPath ref) h of
        Inl e \<Rightarrow> Inl e
      | Inr (s, h') \<Rightarrow>
          (case resolverCalls_loop pkg rest (m \<or> IsSlice ref) (sg \<or> \<not> IsSlice ref) h' of
             Inl e \<Rightarrow> Inl e
           | Inr (calls, m', sg', h'') \<Rightarrow> Inr (Stmt (s @ [jen_Line]) # calls, m', sg', h'')))"
  by (cases "IsSlice ref") (simp_all add: resolution_call_def split: sum.splits prod.splits)

text \<open>The loop succeeds on references with non-empty paths: one block per reference,
  the flags telling which kinds of reference occurred, the paths narrowed in turn.\<close>

lemma resolverCalls_loop_result:
  assumes "\<forall>r\<in>set rs. arrays h (GoValueFieldPath r) \<noteq> []"
  shows "\<exists>calls. resolverCalls_loop pkg rs m sg h =
           Inr (calls, m \<or> (\<exists>r\<in>set rs. IsSlice r), sg \<or> (\<exists>r\<in>set rs. \<not> IsSlice r),
                fold narrow_path rs h) \<and>
         length calls = length rs \<and>
         (\<forall>c\<in>set calls. \<exists>ref h0 s h1.
            encapsulate 0 (resolution_call ref pkg) (GoValueFieldPath ref) h0 = Inr (s, h1) \<and>
            c = Stmt (s @ [jen_Line]))"
  using assms
proof (induction rs arbitrary: m sg h)
  case Nil
  then show ?case by simp
next
  case (Cons ref rest)
  from Cons.prems have "arrays h (GoValueFieldPath ref) \<noteq> []" by simp
  from encapsulate_call [OF this, of pkg] obtain s where
    s: "encapsulate 0 (resolution_call ref pkg) (GoValueFieldPath ref) h = Inr (s, narrow_path ref h)"
    by blast
  have "\<forall>r\<in>set rest. arrays (narrow_path ref h) (GoValueFieldPath r) \<noteq> []"
    using Cons.prems by simp
  from Cons.IH [OF this, of "m \<or> IsSlice ref" "sg \<or> \<not> IsSlice ref"] obtain calls where
    c: "resolverCalls_loop pkg rest (m \<or> IsSlice ref) (sg \<or> \<not> IsSlice ref) (narrow_path ref h) =
          Inr (calls, (m \<or> IsSlice ref) \<or> (\<exists>r\<in>set rest. IsSlice r),
               (sg \<or> \<not> IsSlice ref) \<or> (\<exists>r\<in>set rest. \<not> IsSlice r),
               fold narrow_path rest (narrow_path ref h))"
    and l: "length calls = length rest"
    and a: "\<forall>c\<in>set calls. \<exists>ref h0 s h1.
            encapsulate 0 (resolution_call ref pkg) (GoValueFieldPath ref) h0 = Inr (s, h1) \<and>
            c = Stmt (s @ [jen_Line])"
    by blast
  show ?case
  proof (intro exI conjI)
    show "resolverCalls_loop pkg (ref # rest) m sg h =
           Inr (Stmt (s @ [jen_Line]) # calls, m \<or> (\<exists>r\<in>set (ref # rest). IsSlice r),
                sg \<or> (\<exists>r\<in>set (ref # rest). \<not> IsSlice r), fold narrow_path (ref # rest) h)"
      by (simp add: resolverCalls_loop_Cons s c disj_assoc del: resolverCalls_loop.simps)
    show "length (Stmt (s @ [jen_Line]) # calls) = length (ref # rest)"
      using l by simp
    show "\<forall>c\<in>set (Stmt (s @ [jen_Line]) # calls). \<exists>ref h0 s h1.
            encapsulate 0 (resolution_call ref pkg) (GoValueFieldPath ref) h0 = Inr (s, h1) \<and>
            c = Stmt (s @ [jen_Line])"
      using a s by auto
  qed
qed

lemma fold_narrow_path_fresh [simp]: "fresh (fold narrow_path rs h) = fresh h"
  by (induction rs arbitrary: h) simp_all

lemma fold_narrow_path_length [simp]:
  "length (arrays (fold narrow_path rs h) a) = length (arrays h a)"
  by (induction rs arbitrary: h) simp_all

lemma fold_narrow_path_other:
  "a \<notin> GoValueFieldPath ` set rs \<Longrightarrow> arrays (fold narrow_path rs h) a = arrays h a"
  by (induction rs arbitrary: h) simp_all

lemma fold_narrow_path_distinct:
  "distinct (map GoValueFieldPath rs) \<Longrightarrow> r \<in> set rs \<Longrightarrow>
   arrays (fold narrow_path rs h) (GoValueFieldPath r) = narrow 0 (arrays h (GoValueFieldPath r))"
proof (induction rs arbitrary: h)
  case Nil
  then show ?case by simp
next
  case (Cons x rs)
  show ?case
  proof (cases "r \<in> set rs")
    case True
    then have "GoValueFieldPath r \<in> GoValueFieldPath ` set rs" by simp
    with Cons.prems have "GoValueFieldPath r \<noteq> GoValueFieldPath x" by auto
    with Cons.IH [of "narrow_path x h"] Cons.prems True show ?thesis by simp
  next
    case False
    with Cons.prems have "r = x" by simp
    with Cons.prems show ?thesis by (simp add: fold_narrow_path_other)
  qed
qed

lemma follows_check_no_lookup:
  "\<forall>c\<in>set cs. \<not> is_lookup_call c \<and> \<not> tests_err c \<Longrightarrow> follows_check cs"
  by (induction cs) simp_all

lemma var_pairs_no_var: "jen_Var \<notin> set cs \<Longrightarrow> var_pairs x cs = 0"
  by (induction x cs rule: var_pairs.induct) auto

text \<open>The procedure is emitted for a non-empty list of references with non-empty
  paths: a comment and the method are added to the file.\<close>

lemma emit_ResolveReferences_result:
  assumes "rs \<noteq> []" and "\<forall>r\<in>set rs. arrays h (GoValueFieldPath r) \<noteq> []"
  shows "\<exists>calls. emit_ResolveReferences receiver clientPath pkg f obj rs h =
           Inr (f @ [Stmt [jen_Comment (''ResolveReferences of this '' @ Name obj @ ''.'')],
                     Stmt (ResolveReferences_method receiver clientPath pkg (Name obj)
                             (initStatements_of pkg (\<exists>r\<in>set rs. \<not> IsSlice r)
                                (\<exists>r\<in>set rs. IsSlice r))
                             calls)],
                fold narrow_path rs h) \<and>
         (\<forall>c\<in>set calls. \<exists>ref h0 s h1.
            encapsulate 0 (resolution_call ref pkg) (GoValueFieldPath ref) h0 = Inr (s, h1) \<and>
            c = Stmt (s @ [jen_Line]))"
proof -
  from resolverCalls_loop_result [OF assms(2), of pkg False False] obtain calls where
    c: "resolverCalls_loop pkg rs False False h =
          Inr (calls, (\<exists>r\<in>set rs. IsSlice r), (\<exists>r\<in>set rs. \<not> IsSlice r), fold narrow_path rs h)"
    and a: "\<forall>c\<in>set calls. \<exists>ref h0 s h1.
            encapsulate 0 (resolution_call ref pkg) (GoValueFieldPath ref) h0 = Inr (s, h1) \<and>
            c = Stmt (s @ [jen_Line])"
    by auto
  show ?thesis
    using assms(1) a by (intro exI [of _ calls]) (simp add: emit_ResolveReferences_def c)
qed

lemma method_checked:
  assumes "\<forall>c\<in>set calls. \<exists>ref h0 s h1.
            encapsulate 0 (resolution_call ref pkg) (GoValueFieldPath ref) h0 = Inr (s, h1) \<and>
            c = Stmt (s @ [jen_Line])"
  shows "all_checked (Stmt (ResolveReferences_method receiver clientPath pkg oname
                             (initStatements_of pkg hs hm) calls))"
proof -
  have c: "\<forall>c\<in>set calls. all_checked c \<and> \<not> is_lookup_call c \<and> \<not> tests_err c"
  proof
    fix c assume "c \<in> set calls"
    with assms obtain ref h0 s h1 where
      e: "encapsulate 0 (resolution_call ref pkg) (GoValueFieldPath ref) h0 = Inr (s, h1)"
      and c: "c = Stmt (s @ [jen_Line])"
      by blast
    from block_checked [OF e] show "all_checked c \<and> \<not> is_lookup_call c \<and> \<not> tests_err c"
      unfolding c by simp
  qed
  then have "follows_check calls" "list_all all_checked calls"
    by (simp_all add: follows_check_no_lookup list_all_iff)
  moreover have "\<not> is_lookup_call (Stmt calls)"
  proof (cases calls)
    case Nil
    then show ?thesis by (simp add: is_lookup_call_def)
  next
    case (Cons c cs)
    with assms obtain s where "c = Stmt s" by auto
    with Cons show ?thesis by simp
  qed
  moreover have "\<not> is_lookup_call (Stmt [])"
    by (simp add: is_lookup_call_def)
  ultimately show ?thesis
    by (simp add: ResolveReferences_method_def initStatements_of_def)
qed

lemma method_decls:
  assumes "\<forall>c\<in>set calls. \<exists>ref h0 s h1.
            encapsulate 0 (resolution_call ref pkg) (GoValueFieldPath ref) h0 = Inr (s, h1) \<and>
            c = Stmt (s @ [jen_Line])"
  shows "var_decls ''rsp'' (Stmt (ResolveReferences_method receiver clientPath pkg oname
                             (initStatements_of pkg hs hm) calls)) = (if hs then 1 else 0)"
    and "var_decls ''mrsp'' (Stmt (ResolveReferences_method receiver clientPath pkg oname
                             (initStatements_of pkg hs hm) calls)) = (if hm then 1 else 0)"
proof -
  have c: "\<forall>c\<in>set calls. var_decls ''rsp'' c = 0 \<and> var_decls ''mrsp'' c = 0 \<and> c \<noteq> jen_Var"
  proof
    fix c assume "c \<in> set calls"
    with assms obtain ref h0 s h1 where
      e: "encapsulate 0 (resolution_call ref pkg) (GoValueFieldPath ref) h0 = Inr (s, h1)"
      and c: "c = Stmt (s @ [jen_Line])"
      by blast
    from block_decls [OF e, of "''rsp''"] block_decls [OF e, of "''mrsp''"]
    show "var_decls ''rsp'' c = 0 \<and> var_decls ''mrsp'' c = 0 \<and> c \<noteq> jen_Var"
      unfolding c by simp
  qed
  then have v: "var_pairs ''rsp'' calls = 0" "var_pairs ''mrsp'' calls = 0"
    by (auto intro: var_pairs_no_var)
  from c have s: "sum_list (map (var_decls ''rsp'') calls) = 0"
    "sum_list (map (var_decls ''mrsp'') calls) = 0"
    by simp_all
  show "var_decls ''rsp'' (Stmt (ResolveReferences_method receiver clientPath pkg oname
                             (initStatements_of pkg hs hm) calls)) = (if hs then 1 else 0)"
    using v s by (simp add: ResolveReferences_method_def initStatements_of_def)
  show "var_decls ''mrsp'' (Stmt (ResolveReferences_method receiver clientPath pkg oname
                             (initStatements_of pkg hs hm) calls)) = (if hm then 1 else 0)"
    using v s by (simp add: ResolveReferences_method_def initStatements_of_def)
qed

lemma example_paths:
  "arrays example_heap (GoValueFieldPath example_ref) = [''mg'', ''*Spec'', ''Name'']"
  "arrays example_heap (GoValueFieldPath example_refs) = [''mg'', ''[]Items'', ''*Name'']"
  by (simp_all add: example_heap_def example_ref_def example_refs_def)

section \<open>The synthesizer\<close>

text \<open>Claim C8. With an empty list of references nothing is added to the file and the
  generator does not fail; so it is for an object whose traversal leaves the processor
  without references.\<close>

theorem no_references_no_procedure:
  "emit_ResolveReferences receiver clientPath pkg f obj [] h = Inr (f, h) \<and>
   (Traverse (Type obj) (Process ParseMarkers)
      (NewReferenceProcessor receiver
         [WithDefaultExtractor [jen_Qual pkg ''ExternalName'', jen_Call []]]) h =
      Inr (None, rp, h') \<and>
    GetReferences rp = [] \<longrightarrow>
    (\<exists>h''. NewResolveReferences ParseMarkers Traverse receiver clientPath pkg f obj h =
            Inr (f, h'')))"
proof (intro conjI impI)
  show e: "emit_ResolveReferences receiver clientPath pkg f obj [] h = Inr (f, h)"
    by (simp add: emit_ResolveReferences_def)
  assume t: "Traverse (Type obj) (Process ParseMarkers)
      (NewReferenceProcessor receiver
         [WithDefaultExtractor [jen_Qual pkg ''ExternalName'', jen_Call []]]) h =
      Inr (None, rp, h') \<and> GetReferences rp = []"
  show "\<exists>h''. NewResolveReferences ParseMarkers Traverse receiver clientPath pkg f obj h =
            Inr (f, h'')"
  proof (cases "Type obj")
    case (Named n)
    with t show ?thesis
      by (simp add: NewResolveReferences_def emit_ResolveReferences_def)
  qed (simp_all add: NewResolveReferences_def)
qed

theorem no_references_no_procedure_witness:
  "emit_ResolveReferences ''mg'' ''client'' ''reference'' [] example_object [] example_heap =
     Inr ([], example_heap) \<and>
   example_traverse (Type example_object) (Process example_markers)
      (NewReferenceProcessor ''mg''
         [WithDefaultExtractor [jen_Qual ''reference'' ''ExternalName'', jen_Call []]])
      example_heap =
     Inr (None,
          NewReferenceProcessor ''mg''
            [WithDefaultExtractor [jen_Qual ''reference'' ''ExternalName'', jen_Call []]],
          example_heap) \<and>
   GetReferences (NewReferenceProcessor ''mg''
      [WithDefaultExtractor [jen_Qual ''reference'' ''ExternalName'', jen_Call []]]) = [] \<and>
   (\<exists>h''. NewResolveReferences example_markers example_traverse ''mg'' ''client'' ''reference''
            [] example_object example_heap = Inr ([], h''))"
proof -
  let ?rp = "NewReferenceProcessor ''mg''
      [WithDefaultExtractor [jen_Qual ''reference'' ''ExternalName'', jen_Call []]]"
  have t: "example_traverse (Type example_object) (Process example_markers) ?rp example_heap =
     Inr (None, ?rp, example_heap)"
    by (simp add: example_traverse_def Process_def example_markers_def example_comment_def)
  have g: "GetReferences ?rp = []"
    by (simp add: GetReferences_def NewReferenceProcessor_def WithDefaultExtractor_def)
  show ?thesis
    using t g no_references_no_procedure
      [of "''mg''" "''client''" "''reference''" "[]" example_object example_heap
          example_traverse example_markers ?rp example_heap]
    by simp
qed

text \<open>Claim C3. In the emitted method, the response variable of the singular
  resolution, \<open>rsp\<close>, is declared once when some reference is not a slice and not at
  all otherwise, and the response variable of the plural resolution, \<open>mrsp\<close>, is
  declared once when some reference is a slice and not at all otherwise, however many
  references there are.\<close>

theorem response_variables_declared_once:
  assumes "rs \<noteq> []" and "\<forall>r\<in>set rs. arrays h (GoValueFieldPath r) \<noteq> []"
  shows "\<exists>m h'. emit_ResolveReferences receiver clientPath pkg f obj rs h =
           Inr (f @ [Stmt [jen_Comment (''ResolveReferences of this '' @ Name obj @ ''.'')], m],
                h') \<and>
         var_decls ''rsp'' m = (if \<exists>r\<in>set rs. \<not> IsSlice r then 1 else 0) \<and>
         var_decls ''mrsp'' m = (if \<exists>r\<in>set rs. IsSlice r then 1 else 0)"
proof -
  from emit_ResolveReferences_result [OF assms, of receiver clientPath pkg f obj]
  obtain calls where
    e: "emit_ResolveReferences receiver clientPath pkg f obj rs h =
           Inr (f @ [Stmt [jen_Comment (''ResolveReferences of this '' @ Name obj @ ''.'')],
                     Stmt (ResolveReferences_method receiver clientPath pkg (Name obj)
                             (initStatements_of pkg (\<exists>r\<in>set rs. \<not> IsSlice r)
                                (\<exists>r\<in>set rs. IsSlice r))
                             calls)],
                fold narrow_path rs h)"
    and c: "\<forall>c\<in>set calls. \<exists>ref h0 s h1.
            encapsulate 0 (resolution_call ref pkg) (GoValueFieldPath ref) h0 = Inr (s, h1) \<and>
            c = Stmt (s @ [jen_Line])"
    by blast
  show ?thesis
    unfolding e by (intro exI conjI, rule refl) (rule method_decls [OF c])+
qed

theorem response_variables_declared_once_witness:
  "[example_ref, example_ref, example_refs] \<noteq> [] \<and>
   arrays example_heap (GoValueFieldPath example_ref) \<noteq> [] \<and>
   arrays example_heap (GoValueFieldPath example_refs) \<noteq> [] \<and>
   (\<exists>m h'. emit_ResolveReferences ''mg'' ''client'' ''reference'' [] example_object
              [example_ref, example_ref, example_refs] example_heap =
            Inr ([] @ [Stmt [jen_Comment (''ResolveReferences of this '' @ Name example_object @ ''.'')], m],
                 h') \<and>
          var_decls ''rsp'' m = 1 \<and> var_decls ''mrsp'' m = 1)"
proof -
  have p: "\<forall>r\<in>set [example_ref, example_ref, example_refs].
             arrays example_heap (GoValueFieldPath r) \<noteq> []"
    by (simp add: example_paths)
  have k: "\<exists>r\<in>set [example_ref, example_ref, example_refs]. \<not> IsSlice r"
    "\<exists>r\<in>set [example_ref, example_ref, example_refs]. IsSlice r"
    by (simp_all add: example_ref_def example_refs_def)
  show ?thesis
    using response_variables_declared_once
      [OF _ p, of "''mg''" "''client''" "''reference''" "[]" example_object]
    by (simp only: k if_True) (simp add: example_paths)
qed

text \<open>Claim C6, as stated, fails: the synthesizer writes into the value field path of a
  Reference. For the reference on the path \<open>mg\<close>, \<open>*Spec\<close>, \<open>Name\<close> the path is
  \<open>mg\<close>, \<open>Spec\<close>, \<open>Name\<close> after the procedure has been emitted.\<close>

theorem reference_path_overwritten:
  "arrays example_heap (GoValueFieldPath example_ref) = [''mg'', ''*Spec'', ''Name''] \<and>
   path_after (emit_ResolveReferences ''mg'' ''client'' ''reference'' [] example_object
                 [example_ref] example_heap) example_ref = [''mg'', ''Spec'', ''Name''] \<and>
   path_after (emit_ResolveReferences ''mg'' ''client'' ''reference'' [] example_object
                 [example_ref] example_heap) example_ref \<noteq>
     arrays example_heap (GoValueFieldPath example_ref)"
proof -
  have p: "\<forall>r\<in>set [example_ref]. arrays example_heap (GoValueFieldPath r) \<noteq> []"
    by (simp add: example_paths)
  from emit_ResolveReferences_result
    [OF _ p, of "''mg''" "''client''" "''reference''" "[]" example_object]
  obtain f' where
    "emit_ResolveReferences ''mg'' ''client'' ''reference'' [] example_object
       [example_ref] example_heap = Inr (f', fold narrow_path [example_ref] example_heap)"
    by auto
  then show ?thesis
    by (simp add: path_after_def example_paths narrow_segment_def HasPrefix_def)
qed

text \<open>Claim C6, amended. The synthesizer changes nothing of a Reference but the
  contents of its value field path, which it overwrites in place: going through the
  references in order, it replaces each path by its narrowed form (an optional segment
  without its marker, a repeated segment without its marker and with its index, a
  plain segment as it was). The length of every path stays, every array that is not
  the path of a reference stays, and when the references have paths of their own each
  path ends as the narrowed form of what it was.\<close>

theorem synthesis_narrows_paths_in_place:
  assumes "\<forall>r\<in>set rs. arrays h (GoValueFieldPath r) \<noteq> []"
  shows "(\<exists>f'. emit_ResolveReferences receiver clientPath pkg f obj rs h =
                Inr (f', fold narrow_path rs h)) \<and>
         fresh (fold narrow_path rs h) = fresh h \<and>
         (\<forall>a. length (arrays (fold narrow_path rs h) a) = length (arrays h a)) \<and>
         (\<forall>a. a \<notin> GoValueFieldPath ` set rs \<longrightarrow>
              arrays (fold narrow_path rs h) a = arrays h a) \<and>
         (distinct (map GoValueFieldPath rs) \<longrightarrow>
          (\<forall>r\<in>set rs. arrays (fold narrow_path rs h) (GoValueFieldPath r) =
                       narrow 0 (arrays h (GoValueFieldPath r))))"
proof -
  have "\<exists>f'. emit_ResolveReferences receiver clientPath pkg f obj rs h =
                Inr (f', fold narrow_path rs h)"
  proof (cases "rs = []")
    case True
    then show ?thesis by (simp add: emit_ResolveReferences_def)
  next
    case False
    from emit_ResolveReferences_result [OF False assms, of receiver clientPath pkg f obj]
    show ?thesis by blast
  qed
  then show ?thesis
    by (simp add: fold_narrow_path_other fold_narrow_path_distinct)
qed

theorem synthesis_narrows_paths_in_place_witness:
  "arrays example_heap (GoValueFieldPath example_ref) \<noteq> [] \<and>
   arrays example_heap (GoValueFieldPath example_refs) \<noteq> [] \<and>
   distinct (map GoValueFieldPath [example_ref, example_refs]) \<and>
   (\<exists>f'. emit_ResolveReferences ''mg'' ''client'' ''reference'' [] example_object
            [example_ref, example_refs] example_heap =
          Inr (f', fold narrow_path [example_ref, example_refs] example_heap)) \<and>
   arrays (fold narrow_path [example_ref, example_refs] example_heap)
     (GoValueFieldPath example_ref) = [''mg'', ''Spec'', ''Name''] \<and>
   arrays (fold narrow_path [example_ref, example_refs] example_heap)
     (GoValueFieldPath example_refs) = [''mg'', ''Items[i1]'', ''Name'']"
proof -
  have p: "\<forall>r\<in>set [example_ref, example_refs].
             arrays example_heap (GoValueFieldPath r) \<noteq> []"
    by (simp add: example_paths)
  have d: "distinct (map GoValueFieldPath [example_ref, example_refs])"
    by (simp add: example_ref_def example_refs_def)
  from synthesis_narrows_paths_in_place
    [OF p, of "''mg''" "''client''" "''reference''" "[]" example_object] d
  have "(\<exists>f'. emit_ResolveReferences ''mg'' ''client'' ''reference'' [] example_object
            [example_ref, example_refs] example_heap =
          Inr (f', fold narrow_path [example_ref, example_refs] example_heap)) \<and>
        (\<forall>r\<in>set [example_ref, example_refs].
           arrays (fold narrow_path [example_ref, example_refs] example_heap)
             (GoValueFieldPath r) = narrow 0 (arrays example_heap (GoValueFieldPath r)))"
    by blast
  then show ?thesis
    using d by (simp add: example_paths narrow_segment_def HasPrefix_def loop_var_1)
qed



section \<open>The nesting for the paths of the processor\<close>







section \<open>Runs of the emitted method\<close>

inductive_cases run_NilE: "run [] e tr out"
inductive_cases run_LineE: "run [jen_Line] e tr out"
inductive_cases run_ReturnE: "run (jen_Return results # cs) e tr out"
inductive_cases run_StmtE: "run (Stmt xs # cs) e tr out"
inductive_cases run_err_setE:
  "run (jen_If [Stmt [jen_Err, jen_Op ''!='', jen_Nil]] # jen_Block blk # cs) True tr out"

lemma is_token_simps [simp]:
  "\<not> is_token (Stmt xs)" "\<not> is_token (jen_If xs)" "\<not> is_token (jen_For xs)"
  "\<not> is_token (jen_Block xs)" "\<not> is_token (jen_Return xs)" "\<not> is_token jen_Err"
  "is_token jen_Line" "is_token jen_Var" "is_token jen_Error" "is_token (jen_Id x)"
  "is_token (jen_Dot x)" "is_token (jen_Op x)" "is_token (jen_Qual p x)"
  "is_token (jen_Call xs)" "is_token (jen_Make xs)"
  by (simp_all add: is_token_def)

lemma run_Line: "run [jen_Line] e tr out \<Longrightarrow> tr = [] \<and> out = Falls e"
  by (erule run_LineE) (auto elim: run_NilE)

lemma run_Return: "run (jen_Return results # cs) e tr out \<Longrightarrow> tr = [] \<and> out = Returns"
  by (erule run_ReturnE) auto

text \<open>A \<open>return\<close> statement returns, and so does, when \<open>err\<close> is set, an
  \<open>if err != nil\<close> whose block is one \<open>return\<close> statement, hence a failure check.\<close>

lemma run_return_statement:
  "run (Stmt [jen_Return results] # cs) e tr out \<Longrightarrow> tr = [] \<and> out = Returns"
  by (erule run_StmtE) (auto dest: lookup_length run_Return)

lemma run_return_block:
  assumes "is_return b"
    and "run (jen_If [Stmt [jen_Err, jen_Op ''!='', jen_Nil]] # b # cs) True tr out"
  shows "tr = [] \<and> out = Returns"
proof -
  from assms(1) obtain results where b: "b = jen_Block [Stmt [jen_Return results]]"
    unfolding is_return_def by blast
  from assms(2) show ?thesis
    unfolding b
    by (elim run_err_setE) (auto dest: run_return_statement)
qed

lemma run_failure_check:
  assumes "is_failure_check k" and "run (k # cs) True tr out"
  shows "tr = [] \<and> out = Returns"
proof -
  from assms(1) obtain m where k: "k = failure_check m"
    unfolding is_failure_check_def by blast
  have r: "is_return (jen_Block [Stmt [jen_Return
             [Stmt [jen_Qual ''github.com/pkg/errors'' ''Wrap'',
                    jen_Call [Stmt [jen_Err], Stmt [jen_LitStr m]]]]]])"
    by simp
  from assms(2) show ?thesis
    unfolding k failure_check_def
    by (elim run_StmtE) (auto dest: run_return_block [OF r] lookup_length)
qed

lemma follows_check_lookup:
  "follows_check (c # cs) \<Longrightarrow> is_lookup_call c \<Longrightarrow> at_check cs \<and> hd cs = Stmt [jen_Line]"
  by (auto simp: at_check_def split: list.splits)

lemma follows_check_tests:
  "follows_check (c # b # cs) \<Longrightarrow> tests_err c \<Longrightarrow> is_return b"
  by simp

lemma at_check_Cons:
  "at_check (c # cs) \<Longrightarrow> is_failure_check c \<or> (c = Stmt [jen_Line] \<and> at_check cs)"
  by (auto simp: at_check_def split: list.splits)

lemma at_check_Stmt: "at_check (c # cs) \<Longrightarrow> \<exists>xs. c = Stmt xs"
  by (auto simp: at_check_def is_failure_check_def failure_check_def split: list.splits)

lemma failure_is_last_simps [simp]:
  "failure_is_last []" "failure_is_last [b]"
  "True \<notin> set tr \<Longrightarrow> failure_is_last (tr @ tr') = failure_is_last tr'"
  "failure_is_last (False # tr) = failure_is_last tr"
  by (auto simp: failure_is_last_def butlast_append dest: in_set_butlastD)

lemma lookup_Stmt: "is_lookup_call c \<Longrightarrow> \<exists>xs. c = Stmt xs \<and> length xs = 5"
  by (cases c) (simp_all add: is_lookup_call_def)

lemma lookup_distinct:
  assumes "is_lookup_call c"
  shows "\<not> is_failure_check c \<and> c \<noteq> Stmt [jen_Line]"
proof -
  from lookup_Stmt [OF assms] obtain xs where c: "c = Stmt xs" and l: "length xs = 5"
    by blast
  have "\<And>m. Stmt xs \<noteq> failure_check m"
    using l by (auto simp: failure_check_def)
  with c l show ?thesis
    by (auto simp: is_failure_check_def)
qed

lemma sound_run_append:
  "sound_run False tr (Falls e') \<Longrightarrow> (\<not> e' \<Longrightarrow> sound_run False tr' out) \<Longrightarrow>
   sound_run False (tr @ tr') out"
  by (auto simp: sound_run_def split: outcome.splits)

text \<open>In code where every lookup is followed by its failure check and every test of
  \<open>err\<close> guards a \<open>return\<close>, a run from a nil \<open>err\<close> (or from the failure check
  itself) is sound.\<close>

lemma run_sound:
  "run cs e tr out \<Longrightarrow> all_checked (Stmt cs) \<longrightarrow> (e \<longrightarrow> at_check cs) \<longrightarrow> sound_run e tr out"
  "iterate blk e tr out \<Longrightarrow> all_checked (Stmt blk) \<longrightarrow> \<not> e \<longrightarrow> sound_run e tr out"
proof (induction rule: run_iterate.inducts)
  case (run_end e)
  then show ?case by (simp add: sound_run_def at_check_def)
next
  case (run_lookup c cs failed tr out e)
  show ?case
  proof (intro impI)
    assume a: "all_checked (Stmt (c # cs))" and b: "e \<longrightarrow> at_check (c # cs)"
    have ne: "\<not> e"
      using b run_lookup.hyps(1) lookup_distinct [of c] at_check_Cons [of c cs] by auto
    from a run_lookup.hyps(1) have "at_check cs"
      using follows_check_lookup [of c cs] by simp
    with a run_lookup.IH have s: "sound_run failed tr out" by simp
    show "sound_run e (failed # tr) out"
      using s ne by (cases failed) (auto simp: sound_run_def split: outcome.splits)
  qed
next
  case (run_statement_returns xs e tr cs)
  show ?case
  proof (intro impI)
    assume a: "all_checked (Stmt (Stmt xs # cs))" and b: "e \<longrightarrow> at_check (Stmt xs # cs)"
    have r: "run (Stmt xs # cs) e tr Returns"
      using run_statement_returns.hyps by (rule run_iterate.run_statement_returns)
    show "sound_run e tr Returns"
    proof (cases e)
      case True
      with b at_check_Cons [of "Stmt xs" cs]
      consider "is_failure_check (Stmt xs)" | "xs = [jen_Line]" by auto
      then show ?thesis
      proof cases
        case 1
        from r True have "run (Stmt xs # cs) True tr Returns" by simp
        from run_failure_check [OF 1 this] True show ?thesis
          by (simp add: sound_run_def)
      next
        case 2
        with run_statement_returns.hyps(2) run_Line show ?thesis by blast
      qed
    next
      case False
      with a run_statement_returns.IH show ?thesis by simp
    qed
  qed
next
  case (run_statement_falls xs e tr e' cs tr' out)
  show ?case
  proof (intro impI)
    assume a: "all_checked (Stmt (Stmt xs # cs))" and b: "e \<longrightarrow> at_check (Stmt xs # cs)"
    have r: "run (Stmt xs # cs) e (tr @ tr') out"
      using run_statement_falls.hyps by (rule run_iterate.run_statement_falls)
    show "sound_run e (tr @ tr') out"
    proof (cases e)
      case True
      with b at_check_Cons [of "Stmt xs" cs]
      consider "is_failure_check (Stmt xs)" | "xs = [jen_Line]" "at_check cs" by auto
      then show ?thesis
      proof cases
        case 1
        from r True have "run (Stmt xs # cs) True (tr @ tr') out" by simp
        from run_failure_check [OF 1 this] True show ?thesis
          by (simp add: sound_run_def)
      next
        case 2
        from run_statement_falls.hyps(2) 2(1) run_Line have t: "tr = []" "e' = e" by blast+
        from a 2(2) t True run_statement_falls.IH(2) have "sound_run True tr' out" by simp
        with t True show ?thesis by (simp add: sound_run_def)
      qed
    next
      case False
      with a run_statement_falls.IH(1) have 1: "sound_run False tr (Falls e')" by simp
      then have e': "\<not> e'" by (simp add: sound_run_def)
      with a run_statement_falls.IH(2) have "sound_run False tr' out" by simp
      with 1 False show ?thesis by (simp add: sound_run_append)
    qed
  qed
next
  case (run_err_nil cs tr out blk)
  then show ?case by simp
next
  case (run_err_returns blk tr cs)
  then show ?case by (auto dest: at_check_Stmt)
next
  case (run_err_falls blk tr e' cs tr' out)
  then show ?case by (auto dest: at_check_Stmt)
next
  case (run_convert_nil cs tr out call blk e)
  then show ?case by (auto dest: at_check_Stmt)
next
  case (run_convert_returns blk tr call cs e)
  show ?case
  proof (intro impI)
    assume a: "all_checked (Stmt (jen_If [Stmt (jen_Err # jen_Op ''='' # call),
                                         Stmt [jen_Err, jen_Op ''!='', jen_Nil]] #
                                  jen_Block blk # cs))"
      and b: "e \<longrightarrow> at_check (jen_If [Stmt (jen_Err # jen_Op ''='' # call),
                                         Stmt [jen_Err, jen_Op ''!='', jen_Nil]] #
                                  jen_Block blk # cs)"
    have ne: "\<not> e" using b by (auto dest: at_check_Stmt)
    from a have "is_return (jen_Block blk)" by simp
    then obtain results where "blk = [Stmt [jen_Return results]]"
      unfolding is_return_def by blast
    with run_convert_returns.hyps run_return_statement have "tr = []" by blast
    with ne show "sound_run e tr Returns" by (simp add: sound_run_def)
  qed
next
  case (run_convert_falls blk tr e' cs tr' out call e)
  show ?case
  proof (intro impI)
    assume a: "all_checked (Stmt (jen_If [Stmt (jen_Err # jen_Op ''='' # call),
                                         Stmt [jen_Err, jen_Op ''!='', jen_Nil]] #
                                  jen_Block blk # cs))"
    from a have "is_return (jen_Block blk)" by simp
    then obtain results where "blk = [Stmt [jen_Return results]]"
      unfolding is_return_def by blast
    with run_convert_falls.hyps(1) run_return_statement have False by blast
    then show "sound_run e (tr @ tr') out" ..
  qed
next
  case (run_guard_skips cs e tr out x path blk)
  then show ?case by (auto dest: at_check_Stmt)
next
  case (run_guard_returns blk e tr x path cs)
  then show ?case by (auto dest: at_check_Stmt)
next
  case (run_guard_falls blk e tr e' cs tr' out x path)
  show ?case
  proof (intro impI)
    assume a: "all_checked (Stmt (jen_If [Stmt (jen_Id x # path)] # jen_Block blk # cs))"
      and b: "e \<longrightarrow> at_check (jen_If [Stmt (jen_Id x # path)] # jen_Block blk # cs)"
    have ne: "\<not> e" using b by (auto dest: at_check_Stmt)
    from a run_guard_falls.IH(1) ne have 1: "sound_run False tr (Falls e')" by simp
    then have e': "\<not> e'" by (simp add: sound_run_def)
    with a run_guard_falls.IH(2) have "sound_run False tr' out" by simp
    with 1 ne show "sound_run e (tr @ tr') out" by (simp add: sound_run_append)
  qed
next
  case (run_for_returns blk e tr conds cs)
  then show ?case by (auto dest: at_check_Stmt)
next
  case (run_for_falls blk e tr e' cs tr' out conds)
  show ?case
  proof (intro impI)
    assume a: "all_checked (Stmt (jen_For conds # jen_Block blk # cs))"
      and b: "e \<longrightarrow> at_check (jen_For conds # jen_Block blk # cs)"
    have ne: "\<not> e" using b by (auto dest: at_check_Stmt)
    from a run_for_falls.IH(1) ne have 1: "sound_run False tr (Falls e')" by simp
    then have e': "\<not> e'" by (simp add: sound_run_def)
    with a run_for_falls.IH(2) have "sound_run False tr' out" by simp
    with 1 ne show "sound_run e (tr @ tr') out" by (simp add: sound_run_append)
  qed
next
  case (run_return results cs e)
  then show ?case by (auto simp: sound_run_def dest: at_check_Stmt)
next
  case (run_var_err cs tr out e)
  then show ?case by (auto dest: at_check_Stmt)
next
  case (run_token c cs e tr out)
  then show ?case by (auto dest: at_check_Stmt)
next
  case (iterate_done blk e)
  then show ?case by (simp add: sound_run_def)
next
  case (iterate_returns blk e tr)
  then show ?case by auto
next
  case (iterate_again blk e tr e' tr' out)
  show ?case
  proof (intro impI)
    assume a: "all_checked (Stmt blk)" and ne: "\<not> e"
    from a iterate_again.IH(1) ne have 1: "sound_run False tr (Falls e')" by simp
    then have e': "\<not> e'" by (simp add: sound_run_def)
    with a iterate_again.IH(2) have "sound_run False tr' out" by simp
    with 1 ne show "sound_run e (tr @ tr') out" by (simp add: sound_run_append)
  qed
qed

text \<open>Building runs: statements made of tokens fall through and leave \<open>err\<close> as it
  was; \<open>var err error\<close> leaves it nil; a failure check returns when \<open>err\<close> is set and
  is passed when it is nil.\<close>

lemma run_tokens: "list_all is_token xs \<Longrightarrow> run xs e [] (Falls e)"
  by (induction xs) (auto intro: run_iterate.intros)

lemma run_simple_statement:
  assumes "list_all is_token xs" and "\<not> is_lookup_call (Stmt xs)" and "run cs e tr out"
  shows "run (Stmt xs # cs) e tr out"
  using run_statement_falls [OF assms(2) run_tokens [OF assms(1)] assms(3)] by simp

lemma run_var_err_statement:
  assumes "run cs False tr out"
  shows "run (Stmt [jen_Var, jen_Err, jen_Error] # cs) e tr out"
proof -
  have "run [jen_Var, jen_Err, jen_Error] e [] (Falls False)"
    by (rule run_var_err) (rule run_end)
  from run_statement_falls [OF _ this assms] show ?thesis by simp
qed

lemma run_failure_check_returns: "run (failure_check m # cs) True [] Returns"
  unfolding failure_check_def
  by (intro run_statement_returns run_err_returns run_return) simp_all

lemma run_failure_check_passes:
  assumes "run cs False tr out"
  shows "run (failure_check m # cs) False tr out"
proof -
  have "run [jen_If [Stmt [jen_Err, jen_Op ''!='', jen_Nil]],
             jen_Block [Stmt [jen_Return
               [Stmt [jen_Qual ''github.com/pkg/errors'' ''Wrap'',
                      jen_Call [Stmt [jen_Err], Stmt [jen_LitStr m]]]]]]] False [] (Falls False)"
    by (rule run_err_nil) (rule run_end)
  from run_statement_falls [OF _ this assms] show ?thesis
    by (simp add: failure_check_def)
qed

lemma lookup_first_not_lookup [simp]:
  "is_lookup_call lookup \<Longrightarrow> \<not> is_lookup_call (Stmt (lookup # cs))"
  using lookup_Stmt [of lookup] by auto

text \<open>The terminal call when the lookup fails, and when it succeeds and the rest makes
  no lookup.\<close>

lemma run_call_fails:
  assumes "is_lookup_call lookup"
  shows "run [Stmt (lookup # Stmt [jen_Line] # failure_check m # rest)] False [True] Returns"
proof -
  have "run (Stmt [jen_Line] # failure_check m # rest) True [] Returns"
    by (rule run_simple_statement) (simp_all add: run_failure_check_returns)
  from run_lookup [OF assms this, of False] assms show ?thesis
    by (intro run_statement_returns) simp_all
qed

lemma run_call_succeeds:
  assumes "is_lookup_call lookup" and "run rest False [] (Falls False)"
  shows "run [Stmt (lookup # Stmt [jen_Line] # failure_check m # rest)] False [False]
           (Falls False)"
proof -
  have "run (Stmt [jen_Line] # failure_check m # rest) False [] (Falls False)"
    by (rule run_simple_statement) (simp_all add: run_failure_check_passes assms(2))
  from run_lookup [OF assms(1) this, of False]
  have "run (lookup # Stmt [jen_Line] # failure_check m # rest) False [False] (Falls False)" .
  from run_statement_falls [OF _ this run_end] assms(1) show ?thesis
    by simp
qed

lemma method_body_method [simp]:
  "method_body (Stmt (ResolveReferences_method receiver clientPath pkg oname init calls)) =
     [Stmt [jen_Id ''r'', jen_Op '':='', jen_Qual pkg ''NewAPIResolver'',
            jen_Call [Stmt [jen_Id ''c''], Stmt [jen_Id receiver]]],
      Stmt [jen_Line],
      Stmt init,
      Stmt [jen_Var, jen_Err, jen_Error],
      Stmt [jen_Line],
      Stmt calls,
      Stmt [jen_Line],
      Stmt [jen_Return [Stmt [jen_Nil]]]]"
  by (simp add: method_body_def ResolveReferences_method_def item_def)

text \<open>In every run of an emitted method from a nil \<open>err\<close>, a lookup that fails is the
  last lookup.\<close>

lemma method_runs:
  assumes "all_checked (Stmt (ResolveReferences_method receiver clientPath pkg oname init calls))"
    and "run (method_body (Stmt (ResolveReferences_method receiver clientPath pkg oname init calls)))
           False tr out"
  shows "failure_is_last tr"
proof -
  let ?m = "Stmt (ResolveReferences_method receiver clientPath pkg oname init calls)"
  have 1: "list_all all_checked (ResolveReferences_method receiver clientPath pkg oname init calls)"
    using assms(1) by simp
  have 2: "jen_Block (method_body ?m) \<in>
             set (ResolveReferences_method receiver clientPath pkg oname init calls)"
    unfolding method_body_method by (simp add: ResolveReferences_method_def)
  from 1 2 have "all_checked (jen_Block (method_body ?m))"
    unfolding list_all_iff by blast
  then have "all_checked (Stmt (method_body ?m))"
    by (simp only: all_checked.simps)
  with run_sound(1) [OF assms(2)] have "sound_run False tr out"
    by blast
  then show ?thesis
    by (simp add: sound_run_def)
qed

text \<open>A run of the blocks that returns is a run of the method: the statements before
  the blocks make no lookup and leave \<open>err\<close> nil.\<close>

lemma run_method:
  assumes "run calls False tr Returns" and "\<not> is_lookup_call (Stmt calls)"
  shows "run (method_body (Stmt (ResolveReferences_method receiver clientPath pkg oname
                                   (initStatements_of pkg hs hm) calls)))
           False tr Returns"
proof -
  have 1: "run [Stmt calls, Stmt [jen_Line], Stmt [jen_Return [Stmt [jen_Nil]]]] False tr Returns"
    using assms by (rule run_statement_returns [rotated])
  have 2: "run [Stmt [jen_Line], Stmt calls, Stmt [jen_Line],
                Stmt [jen_Return [Stmt [jen_Nil]]]] False tr Returns"
    by (rule run_simple_statement) (simp_all add: 1)
  have 3: "run [Stmt [jen_Var, jen_Err, jen_Error], Stmt [jen_Line], Stmt calls,
                Stmt [jen_Line], Stmt [jen_Return [Stmt [jen_Nil]]]] e tr Returns" for e
    using 2 by (rule run_var_err_statement)
  have i: "run (initStatements_of pkg hs hm) False [] (Falls False)"
    unfolding initStatements_of_def
    by (cases hs; cases hm) (auto intro!: run_simple_statement run_end)
  have n: "\<not> is_lookup_call (Stmt (initStatements_of pkg hs hm))"
    by (auto simp: initStatements_of_def dest: lookup_length)
  have 4: "run [Stmt (initStatements_of pkg hs hm), Stmt [jen_Var, jen_Err, jen_Error],
                Stmt [jen_Line], Stmt calls, Stmt [jen_Line],
                Stmt [jen_Return [Stmt [jen_Nil]]]] False tr Returns"
    using run_statement_falls [OF n i 3] by simp
  have 5: "run [Stmt [jen_Line], Stmt (initStatements_of pkg hs hm),
                Stmt [jen_Var, jen_Err, jen_Error],
                Stmt [jen_Line], Stmt calls, Stmt [jen_Line],
                Stmt [jen_Return [Stmt [jen_Nil]]]] False tr Returns"
    by (rule run_simple_statement) (simp_all add: 4)
  show ?thesis
    unfolding method_body_method
    by (rule run_simple_statement) (simp_all add: 5)
qed

text \<open>After the failure check, the terminal call of a reference that is not a pointer
  makes assignments only.\<close>

lemma prefixPath_of_is_token [simp]: "list_all is_token (prefixPath_of fs)"
  by (simp add: prefixPath_of_def list_all_iff)

lemma resolution_call_plain:
  assumes "arrays h flds \<noteq> []" and "\<not> IsPointer ref"
  shows "\<exists>lookup rest. resolution_call ref pkg h flds =
           Inr (lookup # Stmt [jen_Line] #
                failure_check (Join (arrays h (GoValueFieldPath ref)) ''.'') # rest) \<and>
         is_lookup_call lookup \<and> run rest False [] (Falls False)"
  using assms
  by (cases "IsSlice ref")
     (auto simp: resolution_call_def singleResolutionCall_def multiResolutionCall_def
        Let_def failure_check_def return_wrapped_def
        intro!: run_simple_statement run_end)

text \<open>The method emitted for the two example references, and two of its runs: the
  first lookup fails; the first lookup succeeds and the second fails.\<close>

lemma example_blocks:
  "\<exists>lookup1 rest1 lookup2 rest2.
     emit_ResolveReferences ''mg'' ''client'' ''reference'' [] example_object
       [example_ref, example_refs] example_heap =
       Inr ([Stmt [jen_Comment (''ResolveReferences of this '' @ Name example_object @ ''.'')],
             Stmt (ResolveReferences_method ''mg'' ''client'' ''reference'' (Name example_object)
                     (initStatements_of ''reference'' True True)
                     [Stmt (null_guard [jen_Id ''mg'', jen_Dot ''Spec'']
                              (lookup1 # Stmt [jen_Line] # failure_check ''mg.Spec.Name'' #
                               rest1) @
                            [jen_Line]),
                      Stmt (bounded_iteration ''i1'' [jen_Id ''mg'', jen_Dot ''Items'']
                              (null_guard [jen_Id ''mg'', jen_Dot ''Items[i1]'', jen_Dot ''Name'']
                                 (lookup2 # Stmt [jen_Line] #
                                  failure_check ''mg.Items[i1].Name'' # rest2)) @
                            [jen_Line])])],
            narrow_path example_refs (narrow_path example_ref example_heap)) \<and>
     is_lookup_call lookup1 \<and> is_lookup_call lookup2 \<and> run rest1 False [] (Falls False)"
proof -
  let ?h1 = "set_path (GoValueFieldPath example_ref) [''mg'', ''Spec'', ''Name''] example_heap"
  have "arrays ?h1 (GoValueFieldPath example_ref) \<noteq> []" "\<not> IsPointer example_ref"
    by (simp_all add: example_ref_def)
  from resolution_call_plain [OF this, of "''reference''"]
  obtain lookup1 rest1 where
    c1: "resolution_call example_ref ''reference'' ?h1 (GoValueFieldPath example_ref) =
          Inr (lookup1 # Stmt [jen_Line] # failure_check ''mg.Spec.Name'' # rest1)"
    and l1: "is_lookup_call lookup1" "run rest1 False [] (Falls False)"
    by auto
  have b1: "encapsulate 0 (resolution_call example_ref ''reference'')
              (GoValueFieldPath example_ref) example_heap =
            Inr (null_guard [jen_Id ''mg'', jen_Dot ''Spec'']
                   (lookup1 # Stmt [jen_Line] # failure_check ''mg.Spec.Name'' # rest1),
                 narrow_path example_ref example_heap)"
    by (simp add: encapsulate_from_start example_paths HasPrefix_def c1 dotted_def
        narrow_path_def narrow_segment_def)
  let ?g = "narrow_path example_ref example_heap"
  have p2: "arrays ?g (GoValueFieldPath example_refs) = [''mg'', ''[]Items'', ''*Name'']"
    using example_paths(2) by (simp add: example_ref_def example_refs_def)
  let ?h2 = "set_path (GoValueFieldPath example_refs) [''mg'', ''Items[i1]'', ''Name''] ?g"
  have "arrays ?h2 (GoValueFieldPath example_refs) \<noteq> []"
    by simp
  from resolution_call_shape [OF this, of example_refs "''reference''"]
  obtain lookup2 rest2 where
    c2: "resolution_call example_refs ''reference'' ?h2 (GoValueFieldPath example_refs) =
          Inr (lookup2 # Stmt [jen_Line] # failure_check ''mg.Items[i1].Name'' # rest2)"
    and l2: "is_lookup_call lookup2"
    by auto
  have b2: "encapsulate 0 (resolution_call example_refs ''reference'')
              (GoValueFieldPath example_refs) ?g =
            Inr (bounded_iteration ''i1'' [jen_Id ''mg'', jen_Dot ''Items'']
                   (null_guard [jen_Id ''mg'', jen_Dot ''Items[i1]'', jen_Dot ''Name'']
                      (lookup2 # Stmt [jen_Line] # failure_check ''mg.Items[i1].Name'' # rest2)),
                 narrow_path example_refs ?g)"
    unfolding encapsulate_from_start p2 narrow_path_def [of example_refs]
    by (simp add: HasPrefix_def c2 dotted_def narrow_segment_def loop_var_1)
  have s: "\<not> IsSlice example_ref" "IsSlice example_refs"
    by (simp_all add: example_ref_def example_refs_def)
  have "resolverCalls_loop ''reference'' [example_ref, example_refs] False False example_heap =
          Inr ([Stmt (null_guard [jen_Id ''mg'', jen_Dot ''Spec'']
                        (lookup1 # Stmt [jen_Line] # failure_check ''mg.Spec.Name'' # rest1) @
                      [jen_Line]),
                Stmt (bounded_iteration ''i1'' [jen_Id ''mg'', jen_Dot ''Items'']
                        (null_guard [jen_Id ''mg'', jen_Dot ''Items[i1]'', jen_Dot ''Name'']
                           (lookup2 # Stmt [jen_Line] #
                            failure_check ''mg.Items[i1].Name'' # rest2)) @
                      [jen_Line])],
               True, True, narrow_path example_refs ?g)"
    unfolding resolverCalls_loop_Cons b1 using s by (simp add: b2)
  then have "emit_ResolveReferences ''mg'' ''client'' ''reference'' [] example_object
       [example_ref, example_refs] example_heap =
       Inr ([Stmt [jen_Comment (''ResolveReferences of this '' @ Name example_object @ ''.'')],
             Stmt (ResolveReferences_method ''mg'' ''client'' ''reference'' (Name example_object)
                     (initStatements_of ''reference'' True True)
                     [Stmt (null_guard [jen_Id ''mg'', jen_Dot ''Spec'']
                              (lookup1 # Stmt [jen_Line] # failure_check ''mg.Spec.Name'' #
                               rest1) @
                            [jen_Line]),
                      Stmt (bounded_iteration ''i1'' [jen_Id ''mg'', jen_Dot ''Items'']
                              (null_guard [jen_Id ''mg'', jen_Dot ''Items[i1]'', jen_Dot ''Name'']
                                 (lookup2 # Stmt [jen_Line] #
                                  failure_check ''mg.Items[i1].Name'' # rest2)) @
                            [jen_Line])])],
            narrow_path example_refs ?g)"
    by (simp add: emit_ResolveReferences_def)
  with l1 l2 show ?thesis by blast
qed

lemma example_runs:
  assumes "is_lookup_call lookup1" and "is_lookup_call lookup2"
    and "run rest1 False [] (Falls False)"
  shows "run (method_body (Stmt (ResolveReferences_method receiver clientPath pkg oname
                (initStatements_of pkg hs hm)
                [Stmt (null_guard [jen_Id x, jen_Dot y]
                         (lookup1 # Stmt [jen_Line] # failure_check m1 # rest1) @
                       [jen_Line]),
                 Stmt (bounded_iteration v [jen_Id x, jen_Dot z]
                         (null_guard [jen_Id x, jen_Dot w, jen_Dot u]
                            (lookup2 # Stmt [jen_Line] # failure_check m2 # rest2)) @
                       [jen_Line])])))
           False [True] Returns"
    and "run (method_body (Stmt (ResolveReferences_method receiver clientPath pkg oname
                (initStatements_of pkg hs hm)
                [Stmt (null_guard [jen_Id x, jen_Dot y]
                         (lookup1 # Stmt [jen_Line] # failure_check m1 # rest1) @
                       [jen_Line]),
                 Stmt (bounded_iteration v [jen_Id x, jen_Dot z]
                         (null_guard [jen_Id x, jen_Dot w, jen_Dot u]
                            (lookup2 # Stmt [jen_Line] # failure_check m2 # rest2)) @
                       [jen_Line])])))
           False [False, True] Returns"
proof -
  let ?T1 = "lookup1 # Stmt [jen_Line] # failure_check m1 # rest1"
  let ?T2 = "lookup2 # Stmt [jen_Line] # failure_check m2 # rest2"
  let ?B1 = "Stmt (null_guard [jen_Id x, jen_Dot y] ?T1 @ [jen_Line])"
  let ?B2 = "Stmt (bounded_iteration v [jen_Id x, jen_Dot z]
                     (null_guard [jen_Id x, jen_Dot w, jen_Dot u] ?T2) @ [jen_Line])"
  have n: "\<not> is_lookup_call (Stmt [?B1, ?B2])"
    by (auto dest: lookup_length)
  have f1: "run (null_guard [jen_Id x, jen_Dot y] ?T1 @ [jen_Line]) False [True] Returns"
    unfolding null_guard_def using run_guard_returns [OF run_call_fails [OF assms(1)]] by simp
  have "run [?B1, ?B2] False [True] Returns"
    by (rule run_statement_returns [OF _ f1]) (auto simp: null_guard_def dest: lookup_length)
  from run_method [OF this n] show "run (method_body (Stmt (ResolveReferences_method receiver
                clientPath pkg oname (initStatements_of pkg hs hm) [?B1, ?B2])))
           False [True] Returns" .
  have l: "run [jen_Line] False [] (Falls False)"
    by (rule run_tokens) simp
  have s1: "run (null_guard [jen_Id x, jen_Dot y] ?T1 @ [jen_Line]) False [False] (Falls False)"
    unfolding null_guard_def
    using run_guard_falls [OF run_call_succeeds [OF assms(1,3)] l] by simp
  have g2: "run (null_guard [jen_Id x, jen_Dot w, jen_Dot u] ?T2) False [True] Returns"
    unfolding null_guard_def using run_guard_returns [OF run_call_fails [OF assms(2)]] by simp
  have "run [Stmt (null_guard [jen_Id x, jen_Dot w, jen_Dot u] ?T2)] False [True] Returns"
    by (rule run_statement_returns [OF _ g2]) (auto simp: null_guard_def dest: lookup_length)
  then have "iterate [Stmt (null_guard [jen_Id x, jen_Dot w, jen_Dot u] ?T2)] False [True] Returns"
    by (rule iterate_returns)
  then have f2: "run (bounded_iteration v [jen_Id x, jen_Dot z]
                     (null_guard [jen_Id x, jen_Dot w, jen_Dot u] ?T2) @ [jen_Line])
                   False [True] Returns"
    unfolding bounded_iteration_def using run_for_returns by simp
  have "run [?B2] False [True] Returns"
    by (rule run_statement_returns [OF _ f2])
       (auto simp: bounded_iteration_def dest: lookup_length)
  from run_statement_falls [OF _ s1 this]
  have "run [?B1, ?B2] False [False, True] Returns"
    by (auto simp: null_guard_def dest: lookup_length)
  from run_method [OF this n] show "run (method_body (Stmt (ResolveReferences_method receiver
                clientPath pkg oname (initStatements_of pkg hs hm) [?B1, ?B2])))
           False [False, True] Returns" .
qed


lemma Join_dotted_path: "Join xs ''.'' = dotted_path xs"
  by (induction xs "''.''" rule: Join.induct) simp_all

text \<open>Claim C4. In the block emitted for a Reference, inside its guards and loops, the
  lookup call is followed at once (after the line break) by the failure check
  \<open>if err != nil { return errors.Wrap(err, "<path>") }\<close>, written out below token by
  token, where \<open><path>\<close> is the full dotted value field path: the names of
  \<open>ref.GoValueFieldPath\<close>, with dots between them, as the path stands when the call is
  emitted. The guard builder has narrowed it by then; for a path of tagged segments it
  is the path of the bare names with every repeated segment as its indexed element
  access. In the whole emitted method every lookup call, at any depth of guards and
  loops, is followed in this way by such a failure check, and every \<open>if\<close> that tests
  \<open>err\<close> guards a \<open>return\<close>. And in every run of the body of the emitted method,
  whatever the lookups and conversions answer, whichever guards are entered and
  however often the loops turn, a lookup that fails is the last lookup of the run: the
  method returns, and no later lookup is reached.\<close>

theorem failure_check_follows_lookup:
  "(arrays h (GoValueFieldPath ref) \<noteq> [] \<longrightarrow>
      (\<exists>s h' lookup rest.
         encapsulate 0 (resolution_call ref pkg) (GoValueFieldPath ref) h = Inr (s, h') \<and>
         innermost s =
           lookup # Stmt [jen_Line] #
           Stmt [jen_If [Stmt [jen_Err, jen_Op ''!='', jen_Nil]],
                 jen_Block
                   [Stmt [jen_Return
                            [Stmt [jen_Qual ''github.com/pkg/errors'' ''Wrap'',
                                   jen_Call
                                     [Stmt [jen_Err],
                                      Stmt [jen_LitStr
                                              (dotted_path
                                                 (arrays h' (GoValueFieldPath ref)))]]]]]]] #
           rest \<and>
         is_lookup_call lookup \<and>
         arrays h' (GoValueFieldPath ref) = narrow 0 (arrays h (GoValueFieldPath ref)) \<and>
         (\<forall>segs. (\<forall>seg\<in>set segs. go_identifier (snd seg)) \<and>
                 arrays h (GoValueFieldPath ref) = map written segs \<longrightarrow>
                 arrays h' (GoValueFieldPath ref) = scoped 0 segs))) \<and>
   (rs \<noteq> [] \<and> (\<forall>r\<in>set rs. arrays h (GoValueFieldPath r) \<noteq> []) \<longrightarrow>
      (\<exists>m h'. emit_ResolveReferences receiver clientPath pkg f obj rs h =
                Inr (f @ [Stmt [jen_Comment (''ResolveReferences of this '' @ Name obj @ ''.'')],
                          m], h') \<and>
              all_checked m \<and>
              (\<forall>tr out. run (method_body m) False tr out \<longrightarrow> failure_is_last tr)))"
proof (intro conjI impI)
  assume ne: "arrays h (GoValueFieldPath ref) \<noteq> []"
  from encapsulate_call [OF ne, of pkg] obtain s where
    s: "encapsulate 0 (resolution_call ref pkg) (GoValueFieldPath ref) h = Inr (s, narrow_path ref h)"
    by blast
  from block_innermost [OF s] obtain lookup rest where
    "innermost s = lookup # Stmt [jen_Line] #
       failure_check (Join (narrow 0 (arrays h (GoValueFieldPath ref))) ''.'') # rest"
    and "is_lookup_call lookup"
    by blast
  with s show "\<exists>s h' lookup rest.
         encapsulate 0 (resolution_call ref pkg) (GoValueFieldPath ref) h = Inr (s, h') \<and>
         innermost s =
           lookup # Stmt [jen_Line] #
           Stmt [jen_If [Stmt [jen_Err, jen_Op ''!='', jen_Nil]],
                 jen_Block
                   [Stmt [jen_Return
                            [Stmt [jen_Qual ''github.com/pkg/errors'' ''Wrap'',
                                   jen_Call
                                     [Stmt [jen_Err],
                                      Stmt [jen_LitStr
                                              (dotted_path
                                                 (arrays h' (GoValueFieldPath ref)))]]]]]]] #
           rest \<and>
         is_lookup_call lookup \<and>
         arrays h' (GoValueFieldPath ref) = narrow 0 (arrays h (GoValueFieldPath ref)) \<and>
         (\<forall>segs. (\<forall>seg\<in>set segs. go_identifier (snd seg)) \<and>
                 arrays h (GoValueFieldPath ref) = map written segs \<longrightarrow>
                 arrays h' (GoValueFieldPath ref) = scoped 0 segs)"
    by (intro exI [of _ s] exI [of _ "narrow_path ref h"] exI [of _ lookup] exI [of _ rest])
       (simp add: failure_check_def Join_dotted_path narrow_written)
next
  assume a: "rs \<noteq> [] \<and> (\<forall>r\<in>set rs. arrays h (GoValueFieldPath r) \<noteq> [])"
  then have a1: "rs \<noteq> []" and a2: "\<forall>r\<in>set rs. arrays h (GoValueFieldPath r) \<noteq> []"
    by simp_all
  from emit_ResolveReferences_result [OF a1 a2, of receiver clientPath pkg f obj]
  obtain calls where
    e: "emit_ResolveReferences receiver clientPath pkg f obj rs h =
           Inr (f @ [Stmt [jen_Comment (''ResolveReferences of this '' @ Name obj @ ''.'')],
                     Stmt (ResolveReferences_method receiver clientPath pkg (Name obj)
                             (initStatements_of pkg (\<exists>r\<in>set rs. \<not> IsSlice r)
                                (\<exists>r\<in>set rs. IsSlice r))
                             calls)],
                fold narrow_path rs h)"
    and c: "\<forall>c\<in>set calls. \<exists>ref h0 s h1.
            encapsulate 0 (resolution_call ref pkg) (GoValueFieldPath ref) h0 = Inr (s, h1) \<and>
            c = Stmt (s @ [jen_Line])"
    by blast
  let ?m = "Stmt (ResolveReferences_method receiver clientPath pkg (Name obj)
                    (initStatements_of pkg (\<exists>r\<in>set rs. \<not> IsSlice r) (\<exists>r\<in>set rs. IsSlice r))
                    calls)"
  have ac: "all_checked ?m"
    by (rule method_checked [OF c])
  have "\<forall>tr out. run (method_body ?m) False tr out \<longrightarrow> failure_is_last tr"
    using method_runs [OF ac] by blast
  with ac show "\<exists>m h'. emit_ResolveReferences receiver clientPath pkg f obj rs h =
                Inr (f @ [Stmt [jen_Comment (''ResolveReferences of this '' @ Name obj @ ''.'')],
                          m], h') \<and>
              all_checked m \<and>
              (\<forall>tr out. run (method_body m) False tr out \<longrightarrow> failure_is_last tr)"
    unfolding e by (intro exI [of _ ?m] exI [of _ "fold narrow_path rs h"] conjI) simp_all
qed

theorem failure_check_follows_lookup_witness:
  "arrays example_heap (GoValueFieldPath example_refs) \<noteq> [] \<and>
   go_identifier ''mg'' \<and> go_identifier ''Items'' \<and> go_identifier ''Name'' \<and>
   arrays example_heap (GoValueFieldPath example_refs) =
     map written [(Plain, ''mg''), (Repeated, ''Items''), (Optional, ''Name'')] \<and>
   (\<exists>s h' lookup rest.
      encapsulate 0 (resolution_call example_refs ''reference'') (GoValueFieldPath example_refs)
        example_heap = Inr (s, h') \<and>
      innermost s =
        lookup # Stmt [jen_Line] #
        Stmt [jen_If [Stmt [jen_Err, jen_Op ''!='', jen_Nil]],
              jen_Block
                [Stmt [jen_Return
                         [Stmt [jen_Qual ''github.com/pkg/errors'' ''Wrap'',
                                jen_Call [Stmt [jen_Err],
                                          Stmt [jen_LitStr ''mg.Items[i1].Name'']]]]]]] #
        rest \<and>
      is_lookup_call lookup \<and>
      arrays h' (GoValueFieldPath example_refs) = [''mg'', ''Items[i1]'', ''Name'']) \<and>
   [example_ref, example_refs] \<noteq> [] \<and>
   arrays example_heap (GoValueFieldPath example_ref) \<noteq> [] \<and>
   (\<exists>m h'. emit_ResolveReferences ''mg'' ''client'' ''reference'' [] example_object
              [example_ref, example_refs] example_heap =
            Inr ([] @ [Stmt [jen_Comment (''ResolveReferences of this '' @ Name example_object @ ''.'')],
                       m], h') \<and>
          all_checked m \<and>
          run (method_body m) False [True] Returns \<and>
          run (method_body m) False [False, True] Returns \<and>
          failure_is_last [True] \<and>
          failure_is_last [False, True] \<and>
          (\<forall>out. \<not> run (method_body m) False [True, False] out) \<and>
          (\<forall>out. \<not> run (method_body m) False [True, True] out))"
proof -
  let ?segs = "[(Plain, ''mg''), (Repeated, ''Items''), (Optional, ''Name'')]"
  have p: "arrays example_heap (GoValueFieldPath example_refs) \<noteq> []"
    "arrays example_heap (GoValueFieldPath example_ref) \<noteq> []"
    by (simp_all add: example_paths)
  have i: "go_identifier ''mg''" "go_identifier ''Items''" "go_identifier ''Name''"
    by (simp_all add: go_identifier_def)
  have w: "arrays example_heap (GoValueFieldPath example_refs) = map written ?segs"
    by (simp add: example_paths)
  have sc: "scoped 0 ?segs = [''mg'', ''Items[i1]'', ''Name'']"
    by (simp add: element_access_def decimal.simps digit_def)
  from failure_check_follows_lookup
    [of example_heap example_refs "''reference''" "[example_ref, example_refs]"
        "''mg''" "''client''" "[]" example_object] p
  have 1: "\<exists>s h' lookup rest.
      encapsulate 0 (resolution_call example_refs ''reference'') (GoValueFieldPath example_refs)
        example_heap = Inr (s, h') \<and>
      innermost s =
        lookup # Stmt [jen_Line] #
        Stmt [jen_If [Stmt [jen_Err, jen_Op ''!='', jen_Nil]],
              jen_Block
                [Stmt [jen_Return
                         [Stmt [jen_Qual ''github.com/pkg/errors'' ''Wrap'',
                                jen_Call [Stmt [jen_Err],
                                          Stmt [jen_LitStr
                                             (dotted_path
                                                (arrays h' (GoValueFieldPath example_refs)))]]]]]]] #
        rest \<and>
      is_lookup_call lookup \<and>
      arrays h' (GoValueFieldPath example_refs) =
        narrow 0 (arrays example_heap (GoValueFieldPath example_refs)) \<and>
      (\<forall>segs. (\<forall>seg\<in>set segs. go_identifier (snd seg)) \<and>
              arrays example_heap (GoValueFieldPath example_refs) = map written segs \<longrightarrow>
              arrays h' (GoValueFieldPath example_refs) = scoped 0 segs)"
    and 2: "\<exists>m h'. emit_ResolveReferences ''mg'' ''client'' ''reference'' [] example_object
              [example_ref, example_refs] example_heap =
            Inr ([] @ [Stmt [jen_Comment (''ResolveReferences of this '' @ Name example_object @ ''.'')],
                       m], h') \<and>
          all_checked m \<and>
          (\<forall>tr out. run (method_body m) False tr out \<longrightarrow> failure_is_last tr)"
    by simp_all
  from 1 obtain s h' lookup rest where
    b: "encapsulate 0 (resolution_call example_refs ''reference'')
          (GoValueFieldPath example_refs) example_heap = Inr (s, h')"
    and n: "innermost s =
        lookup # Stmt [jen_Line] #
        Stmt [jen_If [Stmt [jen_Err, jen_Op ''!='', jen_Nil]],
              jen_Block
                [Stmt [jen_Return
                         [Stmt [jen_Qual ''github.com/pkg/errors'' ''Wrap'',
                                jen_Call [Stmt [jen_Err],
                                          Stmt [jen_LitStr
                                             (dotted_path
                                                (arrays h' (GoValueFieldPath example_refs)))]]]]]]] #
        rest"
    and l0: "is_lookup_call lookup"
    and t: "\<forall>segs. (\<forall>seg\<in>set segs. go_identifier (snd seg)) \<and>
              arrays example_heap (GoValueFieldPath example_refs) = map written segs \<longrightarrow>
              arrays h' (GoValueFieldPath example_refs) = scoped 0 segs"
    by blast
  have "\<forall>seg\<in>set ?segs. go_identifier (snd seg)"
    using i by simp
  with t w have "arrays h' (GoValueFieldPath example_refs) = scoped 0 ?segs"
    by blast
  then have a': "arrays h' (GoValueFieldPath example_refs) = [''mg'', ''Items[i1]'', ''Name'']"
    by (simp only: sc)
  with b n l0 have 3: "\<exists>s h' lookup rest.
      encapsulate 0 (resolution_call example_refs ''reference'') (GoValueFieldPath example_refs)
        example_heap = Inr (s, h') \<and>
      innermost s =
        lookup # Stmt [jen_Line] #
        Stmt [jen_If [Stmt [jen_Err, jen_Op ''!='', jen_Nil]],
              jen_Block
                [Stmt [jen_Return
                         [Stmt [jen_Qual ''github.com/pkg/errors'' ''Wrap'',
                                jen_Call [Stmt [jen_Err],
                                          Stmt [jen_LitStr ''mg.Items[i1].Name'']]]]]]] #
        rest \<and>
      is_lookup_call lookup \<and>
      arrays h' (GoValueFieldPath example_refs) = [''mg'', ''Items[i1]'', ''Name'']"
    by (intro exI [of _ s] exI [of _ h'] exI [of _ lookup] exI [of _ rest]) simp
  from 2 obtain m h'' where
    e: "emit_ResolveReferences ''mg'' ''client'' ''reference'' [] example_object
              [example_ref, example_refs] example_heap =
            Inr ([] @ [Stmt [jen_Comment (''ResolveReferences of this '' @ Name example_object @ ''.'')],
                       m], h'')"
    and ac: "all_checked m"
    and r: "\<forall>tr out. run (method_body m) False tr out \<longrightarrow> failure_is_last tr"
    by blast
  from example_blocks obtain lookup1 rest1 lookup2 rest2 where
    e': "emit_ResolveReferences ''mg'' ''client'' ''reference'' [] example_object
       [example_ref, example_refs] example_heap =
       Inr ([Stmt [jen_Comment (''ResolveReferences of this '' @ Name example_object @ ''.'')],
             Stmt (ResolveReferences_method ''mg'' ''client'' ''reference'' (Name example_object)
                     (initStatements_of ''reference'' True True)
                     [Stmt (null_guard [jen_Id ''mg'', jen_Dot ''Spec'']
                              (lookup1 # Stmt [jen_Line] # failure_check ''mg.Spec.Name'' #
                               rest1) @
                            [jen_Line]),
                      Stmt (bounded_iteration ''i1'' [jen_Id ''mg'', jen_Dot ''Items'']
                              (null_guard [jen_Id ''mg'', jen_Dot ''Items[i1]'', jen_Dot ''Name'']
                                 (lookup2 # Stmt [jen_Line] #
                                  failure_check ''mg.Items[i1].Name'' # rest2)) @
                            [jen_Line])])],
            narrow_path example_refs (narrow_path example_ref example_heap))"
    and l: "is_lookup_call lookup1" "is_lookup_call lookup2" "run rest1 False [] (Falls False)"
    by blast
  from e e' have m: "m = Stmt (ResolveReferences_method ''mg'' ''client'' ''reference''
                     (Name example_object)
                     (initStatements_of ''reference'' True True)
                     [Stmt (null_guard [jen_Id ''mg'', jen_Dot ''Spec'']
                              (lookup1 # Stmt [jen_Line] # failure_check ''mg.Spec.Name'' #
                               rest1) @
                            [jen_Line]),
                      Stmt (bounded_iteration ''i1'' [jen_Id ''mg'', jen_Dot ''Items'']
                              (null_guard [jen_Id ''mg'', jen_Dot ''Items[i1]'', jen_Dot ''Name'']
                                 (lookup2 # Stmt [jen_Line] #
                                  failure_check ''mg.Items[i1].Name'' # rest2)) @
                            [jen_Line])])"
    by simp
  have x: "run (method_body m) False [True] Returns"
    "run (method_body m) False [False, True] Returns"
    unfolding m by (rule example_runs [OF l])+
  with r have y: "failure_is_last [True]" "failure_is_last [False, True]"
    by blast+
  have z: "\<not> failure_is_last [True, False]" "\<not> failure_is_last [True, True]"
    by (simp_all add: failure_is_last_def)
  with r have n': "\<forall>out. \<not> run (method_body m) False [True, False] out"
    "\<forall>out. \<not> run (method_body m) False [True, True] out"
    by blast+
  from e ac x y n' have "\<exists>m h'. emit_ResolveReferences ''mg'' ''client'' ''reference'' []
              example_object [example_ref, example_refs] example_heap =
            Inr ([] @ [Stmt [jen_Comment (''ResolveReferences of this '' @ Name example_object @ ''.'')],
                       m], h') \<and>
          all_checked m \<and>
          run (method_body m) False [True] Returns \<and>
          run (method_body m) False [False, True] Returns \<and>
          failure_is_last [True] \<and>
          failure_is_last [False, True] \<and>
          (\<forall>out. \<not> run (method_body m) False [True, False] out) \<and>
          (\<forall>out. \<not> run (method_body m) False [True, True] out)"
    by blast
  with 3 p i w show ?thesis by simp
qed

end
